theory Spec2Isabelle
  imports Main
begin

section \<open>Values, requests and the browser state\<close>

text \<open>
  The session coordinator of the front end lives in \<^verbatim>\<open>services/api.js\<close> (the request
  gateway, the login and logout flows, the stored-identity helpers) and in \<^verbatim>\<open>App.jsx\<close>
  (the consumer that derives the session status). Both work on the browser's
  \<^verbatim>\<open>localStorage\<close>, on one module-level flag and on a handful of browser effects.
\<close>

text \<open>
  The values \<^verbatim>\<open>JSON.parse\<close> can return. JavaScript's \<^verbatim>\<open>null\<close> is \<open>JNull\<close>; an object is
  the list of its own properties in enumeration order. Numbers are kept to the integers:
  the code only ever tests a parsed number for being zero.
\<close>

datatype json =
    JNull
  | JBool bool
  | JNum int
  | JStr string
  | JArr "json list"
  | JObj "(string \<times> json) list"

text \<open>What \<^verbatim>\<open>if (v)\<close> tests on such a value, and on a string read from storage.\<close>

fun truthy :: "json \<Rightarrow> bool" where
  "truthy JNull = False"
| "truthy (JBool b) = b"
| "truthy (JNum n) = (n \<noteq> 0)"
| "truthy (JStr s) = (s \<noteq> [])"
| "truthy (JArr xs) = True"
| "truthy (JObj ps) = True"

datatype js_error = Error string | SyntaxError | TypeError string

datatype body = Text string | FormData "(string \<times> string) list"

text \<open>
  The second argument of \<^verbatim>\<open>authFetch\<close>: the properties the callers pass. A header object
  is a finite map from (case-sensitive) property names to values.
\<close>

record fetch_options =
  opt_method :: "string option"
  opt_headers :: "(string \<rightharpoonup> string) option"
  opt_body :: "body option"

record request =
  req_url :: string
  req_method :: "string option"
  req_headers :: "string \<rightharpoonup> string"
  req_body :: "body option"

record response =
  status :: nat
  resp_text :: string

text \<open>The backend is a black box: a request is answered, or the network fails.\<close>

type_synonym network = "request \<Rightarrow> js_error + response"

datatype effect =
    ConsoleError string "js_error option"
  | DispatchEvent string
  | Alert string
  | Navigate string
  | Fetch request

datatype callback = ResetLoggingOut

text \<open>
  The state the module runs in: \<^verbatim>\<open>localStorage\<close>, the module variable
  \<^verbatim>\<open>isLoggingOut\<close>, the browser effects in the order they happened, and the timers set
  by \<^verbatim>\<open>setTimeout\<close> with the time (in milliseconds) at which each falls due.
\<close>

record world =
  localStorage :: "string \<rightharpoonup> string"
  isLoggingOut :: bool
  effects :: "effect list"
  clock :: nat
  timers :: "(nat \<times> callback) list"

definition BASE :: string where
  "BASE = ''http://127.0.0.1:8000''"

definition emit :: "effect \<Rightarrow> world \<Rightarrow> world" where
  "emit e w = w\<lparr>effects := effects w @ [e]\<rparr>"

definition getItem :: "string \<Rightarrow> world \<Rightarrow> string option" where
  "getItem k w = localStorage w k"

definition setItem :: "string \<Rightarrow> string \<Rightarrow> world \<Rightarrow> world" where
  "setItem k v w = w\<lparr>localStorage := (localStorage w)(k \<mapsto> v)\<rparr>"

definition removeItem :: "string \<Rightarrow> world \<Rightarrow> world" where
  "removeItem k w = w\<lparr>localStorage := (localStorage w)(k := None)\<rparr>"

definition console_error :: "string \<Rightarrow> js_error option \<Rightarrow> world \<Rightarrow> world" where
  "console_error msg e w = emit (ConsoleError msg e) w"

definition alert :: "string \<Rightarrow> world \<Rightarrow> world" where
  "alert msg w = emit (Alert msg) w"

definition set_location_href :: "string \<Rightarrow> world \<Rightarrow> world" where
  "set_location_href url w = emit (Navigate url) w"

definition setTimeout :: "callback \<Rightarrow> nat \<Rightarrow> world \<Rightarrow> world" where
  "setTimeout cb delay w = w\<lparr>timers := timers w @ [(clock w + delay, cb)]\<rparr>"

text \<open>The notices shown so far, oldest first.\<close>

fun alerts :: "effect list \<Rightarrow> string list" where
  "alerts [] = []"
| "alerts (Alert m # es) = m # alerts es"
| "alerts (e # es) = alerts es"

section \<open>The request gateway\<close>

text \<open>
  \<^verbatim>\<open>dispatchAuthChange\<close> fires the \<^verbatim>\<open>authChange\<close> event, recorded here as an effect. What
  the listeners do is theirs: the one listener in the repository is \<^verbatim>\<open>syncAuthState\<close> of
  \<^verbatim>\<open>App.jsx\<close>, modelled further down. Likewise the assignment to
  \<^verbatim>\<open>window.location.href\<close> is recorded as the navigation it asks for; the page it loads is
  not part of the model.
\<close>

definition dispatchAuthChange :: "world \<Rightarrow> world" where
  "dispatchAuthChange w = emit (DispatchEvent ''authChange'') w"

definition getToken :: "world \<Rightarrow> string option" where
  "getToken w = getItem ''token'' w"

text \<open>
  A template literal \<^verbatim>\<open>`Bearer ${token}`\<close> on what \<^verbatim>\<open>getItem\<close> returned: \<^verbatim>\<open>null\<close> is
  written out as the four letters.
\<close>

definition bearer :: "string option \<Rightarrow> string" where
  "bearer token = ''Bearer '' @ (case token of None \<Rightarrow> ''null'' | Some t \<Rightarrow> t)"

text \<open>
  \<^verbatim>\<open>authFetch\<close> up to its \<^verbatim>\<open>await fetch(...)\<close>: the token is read, the header object is
  built from the JSON default, the caller's headers spread over it and, when the token is
  truthy, the bearer credential; the request takes the caller's other options.
\<close>

definition authFetch_request :: "string \<Rightarrow> fetch_options \<Rightarrow> world \<Rightarrow> request" where
  "authFetch_request url options w =
     (let token = getToken w;
          headers = [''Content-Type'' \<mapsto> ''application/json'']
                      ++ (case opt_headers options of None \<Rightarrow> Map.empty | Some h \<Rightarrow> h);
          headers = (case token of
                       None \<Rightarrow> headers
                     | Some t \<Rightarrow> if t \<noteq> [] then headers(''Authorization'' \<mapsto> bearer (Some t))
                                else headers)
      in \<lparr>req_url = BASE @ url, req_method = opt_method options,
          req_headers = headers, req_body = opt_body options\<rparr>)"

text \<open>
  \<^verbatim>\<open>authFetch\<close> from the moment the awaited \<^verbatim>\<open>fetch\<close> settles, in the state of that
  moment: the two status checks inside the \<^verbatim>\<open>try\<close>, and the \<^verbatim>\<open>catch\<close> that logs and
  rethrows whatever was thrown (the network's error or one of the two thrown here).
\<close>

definition authFetch_settle :: "js_error + response \<Rightarrow> world \<Rightarrow> (js_error + response) \<times> world" where
  "authFetch_settle outcome w =
     (case outcome of
        Inl error \<Rightarrow> (Inl error, console_error ''API request failed:'' (Some error) w)
      | Inr response \<Rightarrow>
          if status response = 401 then
            (let w = console_error ''Authentication failed - clearing session'' None w;
                 w = removeItem ''token'' w;
                 w = removeItem ''user'' w;
                 w = dispatchAuthChange w;
                 w = (if \<not> isLoggingOut w
                      then alert ''Your session has expired. Please log in again.'' w else w);
                 w = set_location_href ''/login'' w;
                 error = Error ''Authentication failed''
             in (Inl error, console_error ''API request failed:'' (Some error) w))
          else if status response = 403 then
            (let w = console_error
                       ''Access forbidden - your session may be outdated. Please log in again.''
                       None w;
                 w = removeItem ''token'' w;
                 w = removeItem ''user'' w;
                 w = dispatchAuthChange w;
                 w = (if \<not> isLoggingOut w
                      then alert ''Your session is outdated. Please log in again.'' w else w);
                 w = set_location_href ''/login'' w;
                 error = Error ''Access forbidden''
             in (Inl error, console_error ''API request failed:'' (Some error) w))
          else (Inr response, w))"

definition authFetch :: "network \<Rightarrow> string \<Rightarrow> fetch_options \<Rightarrow> world \<Rightarrow> (js_error + response) \<times> world" where
  "authFetch net url options w =
     (let req = authFetch_request url options w
      in authFetch_settle (net req) (emit (Fetch req) w))"

text \<open>The upload variant: no default header, always \<^verbatim>\<open>POST\<close>, and one status check.\<close>

definition authFetchFormData_request :: "string \<Rightarrow> (string \<times> string) list \<Rightarrow> world \<Rightarrow> request" where
  "authFetchFormData_request url formData w =
     (let token = getToken w;
          headers = Map.empty;
          headers = (case token of
                       None \<Rightarrow> headers
                     | Some t \<Rightarrow> if t \<noteq> [] then headers(''Authorization'' \<mapsto> bearer (Some t))
                                else headers)
      in \<lparr>req_url = BASE @ url, req_method = Some ''POST'',
          req_headers = headers, req_body = Some (FormData formData)\<rparr>)"

definition authFetchFormData_settle :: "js_error + response \<Rightarrow> world \<Rightarrow> (js_error + response) \<times> world" where
  "authFetchFormData_settle outcome w =
     (case outcome of
        Inl error \<Rightarrow> (Inl error, console_error ''API request failed:'' (Some error) w)
      | Inr response \<Rightarrow>
          if status response = 401 then
            (let w = removeItem ''token'' w;
                 w = removeItem ''user'' w;
                 w = dispatchAuthChange w;
                 w = (if \<not> isLoggingOut w
                      then alert ''Your session has expired. Please log in again.'' w else w);
                 w = set_location_href ''/login'' w;
                 error = Error ''Authentication failed''
             in (Inl error, console_error ''API request failed:'' (Some error) w))
          else (Inr response, w))"

definition authFetchFormData :: "network \<Rightarrow> string \<Rightarrow> (string \<times> string) list \<Rightarrow> world \<Rightarrow> (js_error + response) \<times> world" where
  "authFetchFormData net url formData w =
     (let req = authFetchFormData_request url formData w
      in authFetchFormData_settle (net req) (emit (Fetch req) w))"

section \<open>The stored identity\<close>

text \<open>
  \<^verbatim>\<open>JSON.parse\<close> and \<^verbatim>\<open>JSON.stringify\<close> belong to the platform, not to the repository:
  the functions that call them take them as parameters. A parser returns \<open>None\<close> where
  \<^verbatim>\<open>JSON.parse\<close> throws its \<^verbatim>\<open>SyntaxError\<close>.
\<close>

type_synonym parser = "string \<Rightarrow> json option"
type_synonym serializer = "json \<Rightarrow> string"

definition getCurrentUser :: "parser \<Rightarrow> world \<Rightarrow> js_error + json" where
  "getCurrentUser parse w =
     (case getItem ''user'' w of
        None \<Rightarrow> Inr JNull
      | Some userStr \<Rightarrow>
          if userStr \<noteq> [] then
            (case parse userStr of None \<Rightarrow> Inl SyntaxError | Some v \<Rightarrow> Inr v)
          else Inr JNull)"

text \<open>
  Object spread. The own enumerable properties of a value: those of an object, the
  indexed elements of an array, the indexed characters of a string, none otherwise.
  Assigning to a property keeps the place of a key that exists and appends a new one;
  an object enumerates its array-index keys first, in ascending order, then the others
  in the order they were created.
\<close>

definition digit_char :: "nat \<Rightarrow> char" where
  "digit_char n = char_of (48 + n)"

fun show_nat :: "nat \<Rightarrow> string" where
  "show_nat n = (if n < 10 then [digit_char n] else show_nat (n div 10) @ [digit_char (n mod 10)])"

declare show_nat.simps [simp del]

definition show_int :: "int \<Rightarrow> string" where
  "show_int i = (if i < 0 then CHR ''-'' # show_nat (nat (- i)) else show_nat (nat i))"

definition is_digit :: "char \<Rightarrow> bool" where
  "is_digit c = (c \<in> set ''0123456789'')"

definition digit_val :: "char \<Rightarrow> int" where
  "digit_val c = of_char c - 48"

definition int_of_digits :: "string \<Rightarrow> int" where
  "int_of_digits s = foldl (\<lambda>n c. 10 * n + digit_val c) 0 s"

definition is_array_index :: "string \<Rightarrow> bool" where
  "is_array_index s =
     (case s of
        [] \<Rightarrow> False
      | c # cs \<Rightarrow> list_all is_digit s \<and> (if c = CHR ''0'' then cs = [] else True)
                 \<and> int_of_digits s < 4294967295)"

definition js_order :: "(string \<times> 'v) list \<Rightarrow> (string \<times> 'v) list" where
  "js_order ps =
     sort_key (\<lambda>p. int_of_digits (fst p)) (filter (\<lambda>p. is_array_index (fst p)) ps)
     @ filter (\<lambda>p. \<not> is_array_index (fst p)) ps"

fun set_prop :: "string \<Rightarrow> 'v \<Rightarrow> (string \<times> 'v) list \<Rightarrow> (string \<times> 'v) list" where
  "set_prop k v [] = [(k, v)]"
| "set_prop k v (p # ps) = (if fst p = k then (k, v) # ps else p # set_prop k v ps)"

definition spread :: "(string \<times> 'v) list \<Rightarrow> (string \<times> 'v) list \<Rightarrow> (string \<times> 'v) list" where
  "spread target source = foldl (\<lambda>acc p. set_prop (fst p) (snd p) acc) target source"

definition indexed :: "'v list \<Rightarrow> (string \<times> 'v) list" where
  "indexed xs = map (\<lambda>i. (show_nat i, xs ! i)) [0 ..< length xs]"

fun own_props :: "json \<Rightarrow> (string \<times> json) list" where
  "own_props (JObj ps) = ps"
| "own_props (JArr xs) = indexed xs"
| "own_props (JStr s) = indexed (map (\<lambda>c. JStr [c]) s)"
| "own_props v = []"

text \<open>The object literal \<^verbatim>\<open>{ ...a, ...b }\<close>.\<close>

definition object_spread :: "json \<Rightarrow> json \<Rightarrow> json" where
  "object_spread a b = JObj (js_order (spread (spread [] (own_props a)) (own_props b)))"

definition updateStoredUser :: "parser \<Rightarrow> serializer \<Rightarrow> json \<Rightarrow> world \<Rightarrow> (js_error + unit) \<times> world" where
  "updateStoredUser parse stringify userData w =
     (case getCurrentUser parse w of
        Inl error \<Rightarrow> (Inl error, w)
      | Inr currentUser \<Rightarrow>
          if truthy currentUser then
            (let updatedUser = object_spread currentUser userData;
                 w = setItem ''user'' (stringify updatedUser) w;
                 w = dispatchAuthChange w
             in (Inr (), w))
          else (Inr (), w))"

section \<open>Login and logout\<close>

text \<open>
  What \<^verbatim>\<open>setItem\<close> stores for a value that is not a string: its string conversion.
  \<open>None\<close> stands for \<^verbatim>\<open>undefined\<close>, the value of a property that is not there.
\<close>

fun to_js_string :: "json \<Rightarrow> string"
  and joined :: "json list \<Rightarrow> string" where
  "to_js_string JNull = ''null''"
| "to_js_string (JBool b) = (if b then ''true'' else ''false'')"
| "to_js_string (JNum n) = show_int n"
| "to_js_string (JStr s) = s"
| "to_js_string (JArr xs) = joined xs"
| "to_js_string (JObj ps) = ''[object Object]''"
| "joined [] = []"
| "joined [x] = (case x of JNull \<Rightarrow> [] | _ \<Rightarrow> to_js_string x)"
| "joined (x # y # ys) = (case x of JNull \<Rightarrow> [] | _ \<Rightarrow> to_js_string x) @ '','' @ joined (y # ys)"

definition to_js_string_opt :: "json option \<Rightarrow> string" where
  "to_js_string_opt v = (case v of None \<Rightarrow> ''undefined'' | Some x \<Rightarrow> to_js_string x)"

text \<open>
  Reading the property \<^verbatim>\<open>token\<close> or \<^verbatim>\<open>user\<close> of the decoded body: a \<^verbatim>\<open>TypeError\<close> on
  \<^verbatim>\<open>null\<close>, the property's value on an object that has it, \<^verbatim>\<open>undefined\<close> otherwise.
\<close>

definition get_member :: "json \<Rightarrow> string \<Rightarrow> js_error + json option" where
  "get_member v k =
     (case v of
        JNull \<Rightarrow> Inl (TypeError ''Cannot read properties of null'')
      | JObj ps \<Rightarrow> Inr (map_of ps k)
      | _ \<Rightarrow> Inr None)"

definition ok :: "response \<Rightarrow> bool" where
  "ok res = (200 \<le> status res \<and> status res \<le> 299)"

definition login_request :: "serializer \<Rightarrow> string \<Rightarrow> string \<Rightarrow> request" where
  "login_request stringify email password =
     \<lparr>req_url = BASE @ ''/api/v1/auth/login'', req_method = Some ''POST'',
      req_headers = [''Content-Type'' \<mapsto> ''application/json''],
      req_body = Some (Text (stringify (JObj [(''email'', JStr email), (''password'', JStr password)])))\<rparr>"

text \<open>
  \<^verbatim>\<open>login\<close> after its \<^verbatim>\<open>fetch\<close> has settled: on an \<^verbatim>\<open>ok\<close> response the body is decoded
  (\<^verbatim>\<open>res.json()\<close>), the token and the serialized user are stored and the change is
  announced; the response is returned in either case.
\<close>

definition login_settle :: "parser \<Rightarrow> serializer \<Rightarrow> js_error + response \<Rightarrow> world \<Rightarrow> (js_error + response) \<times> world" where
  "login_settle parse stringify outcome w =
     (case outcome of
        Inl error \<Rightarrow> (Inl error, w)
      | Inr res \<Rightarrow>
          if ok res then
            (case parse (resp_text res) of
               None \<Rightarrow> (Inl SyntaxError, w)
             | Some data \<Rightarrow>
                 (case get_member data ''token'' of
                    Inl error \<Rightarrow> (Inl error, w)
                  | Inr token \<Rightarrow>
                      (let w = setItem ''token'' (to_js_string_opt token) w
                       in case get_member data ''user'' of
                            Inl error \<Rightarrow> (Inl error, w)
                          | Inr user \<Rightarrow>
                              (let w = setItem ''user''
                                         (case user of None \<Rightarrow> ''undefined'' | Some u \<Rightarrow> stringify u) w;
                                   w = dispatchAuthChange w
                               in (Inr res, w)))))
          else (Inr res, w))"

definition login :: "parser \<Rightarrow> serializer \<Rightarrow> network \<Rightarrow> string \<Rightarrow> string \<Rightarrow> world \<Rightarrow> (js_error + response) \<times> world" where
  "login parse stringify net email password w =
     (let req = login_request stringify email password
      in login_settle parse stringify (net req) (emit (Fetch req) w))"

definition logout :: "world \<Rightarrow> world" where
  "logout w =
     (let w = w\<lparr>isLoggingOut := True\<rparr>;
          w = removeItem ''token'' w;
          w = removeItem ''user'' w;
          w = dispatchAuthChange w;
          w = set_location_href ''/login'' w
      in setTimeout ResetLoggingOut 1000 w)"

text \<open>
  Time passing: the clock moves on by \<open>d\<close> milliseconds and the timers that have fallen
  due run, earliest first (timers due together run in the order they were set). A timer
  runs at the time it was set for; a browser may run it later, never earlier.
\<close>

fun run_callback :: "callback \<Rightarrow> world \<Rightarrow> world" where
  "run_callback ResetLoggingOut w = w\<lparr>isLoggingOut := False\<rparr>"

definition advance :: "nat \<Rightarrow> world \<Rightarrow> world" where
  "advance d w =
     (let t = clock w + d;
          due = sort_key fst (filter (\<lambda>p. fst p \<le> t) (timers w));
          later = filter (\<lambda>p. \<not> fst p \<le> t) (timers w)
      in foldl (\<lambda>w p. run_callback (snd p) w) (w\<lparr>clock := t, timers := later\<rparr>) due)"

section \<open>The consumer: deriving the session status\<close>

record auth_state =
  isLoggedIn :: bool
  user :: json
  isLoading :: bool

datatype session_status = Loading | Authenticated json | Anonymous

definition session_status :: "auth_state \<Rightarrow> session_status" where
  "session_status a =
     (if isLoading a then Loading else if isLoggedIn a then Authenticated (user a) else Anonymous)"

definition initial_auth_state :: auth_state where
  "initial_auth_state = \<lparr>isLoggedIn = False, user = JNull, isLoading = True\<rparr>"

definition string_truthy :: "string option \<Rightarrow> bool" where
  "string_truthy s = (case s of None \<Rightarrow> False | Some x \<Rightarrow> x \<noteq> [])"

text \<open>\<^verbatim>\<open>syncAuthState\<close> of \<^verbatim>\<open>App.jsx\<close>: the new component state and the state left behind.\<close>

definition syncAuthState :: "parser \<Rightarrow> world \<Rightarrow> auth_state \<times> world" where
  "syncAuthState parse w =
     (let token = getItem ''token'' w;
          userStr = getItem ''user'' w
      in if string_truthy token \<and> string_truthy userStr then
           (case parse (case userStr of None \<Rightarrow> [] | Some s \<Rightarrow> s) of
              Some parsed \<Rightarrow> (\<lparr>isLoggedIn = True, user = parsed, isLoading = False\<rparr>, w)
            | None \<Rightarrow>
                (let w = console_error ''Failed to parse user data:'' (Some SyntaxError) w;
                     w = removeItem ''token'' w;
                     w = removeItem ''user'' w
                 in (\<lparr>isLoggedIn = False, user = JNull, isLoading = False\<rparr>, w)))
         else (\<lparr>isLoggedIn = False, user = JNull, isLoading = False\<rparr>, w))"

section \<open>Investigator management\<close>

text \<open>These four call \<^verbatim>\<open>fetch\<close> themselves and return its promise.\<close>

definition getInvestigators :: "network \<Rightarrow> world \<Rightarrow> (js_error + response) \<times> world" where
  "getInvestigators net w =
     (let token = getItem ''token'' w;
          req = \<lparr>req_url = BASE @ ''/api/v1/admin/investigators'', req_method = None,
                 req_headers = [''Authorization'' \<mapsto> bearer token,
                                ''Content-Type'' \<mapsto> ''application/json''],
                 req_body = None\<rparr>
      in (net req, emit (Fetch req) w))"

definition getInvestigatorDetails :: "network \<Rightarrow> string \<Rightarrow> world \<Rightarrow> (js_error + response) \<times> world" where
  "getInvestigatorDetails net investigatorId w =
     (let token = getItem ''token'' w;
          req = \<lparr>req_url = BASE @ ''/api//v1/admin/investigators/'' @ investigatorId,
                 req_method = None,
                 req_headers = [''Authorization'' \<mapsto> bearer token,
                                ''Content-Type'' \<mapsto> ''application/json''],
                 req_body = None\<rparr>
      in (net req, emit (Fetch req) w))"

definition updateInvestigator :: "serializer \<Rightarrow> network \<Rightarrow> string \<Rightarrow> json \<Rightarrow> world \<Rightarrow> (js_error + response) \<times> world" where
  "updateInvestigator stringify net investigatorId data w =
     (let token = getItem ''token'' w;
          req = \<lparr>req_url = BASE @ ''/api//v1/admin/investigators/'' @ investigatorId,
                 req_method = Some ''PUT'',
                 req_headers = [''Authorization'' \<mapsto> bearer token,
                                ''Content-Type'' \<mapsto> ''application/json''],
                 req_body = Some (Text (stringify data))\<rparr>
      in (net req, emit (Fetch req) w))"

definition updateInvestigatorAvailability :: "serializer \<Rightarrow> network \<Rightarrow> json \<Rightarrow> world \<Rightarrow> (js_error + response) \<times> world" where
  "updateInvestigatorAvailability stringify net isAvailable w =
     (let token = getToken w;
          req = \<lparr>req_url = BASE @ ''/api/v1/investigator/availability'',
                 req_method = Some ''PUT'',
                 req_headers = [''Authorization'' \<mapsto> bearer token,
                                ''Content-Type'' \<mapsto> ''application/json''],
                 req_body = Some (Text (stringify (JObj [(''is_available'', isAvailable)])))\<rparr>
      in (net req, emit (Fetch req) w))"

section \<open>A reference JSON codec\<close>

text \<open>
  A parser and a serializer for the JSON texts whose numbers are integers and whose
  strings are ASCII, following the JSON grammar (whitespace, the escapes, no leading
  zeros, a repeated key keeps its first place and its last value). The functions above
  are stated for any parser and serializer; this pair is what they are run with on
  concrete stored strings, and the pair for which writing a session and reading it back
  is proved. The parser descends with a bound on its depth, one more than the length of
  the text, which is enough for every text the serializer writes.
\<close>

definition is_ws :: "char \<Rightarrow> bool" where
  "is_ws c = (c \<in> set [CHR '' '', CHR 0x09, CHR 0x0A, CHR 0x0D])"

definition skip_ws :: "string \<Rightarrow> string" where
  "skip_ws s = dropWhile is_ws s"

definition hex_val :: "char \<Rightarrow> nat option" where
  "hex_val c =
     (if is_digit c then Some (of_char c - 48)
      else if c \<in> set ''abcdef'' then Some (of_char c - 87)
      else if c \<in> set ''ABCDEF'' then Some (of_char c - 55)
      else None)"

definition unescape :: "char \<Rightarrow> char option" where
  "unescape e =
     (if e = CHR 0x22 then Some (CHR 0x22)
      else if e = CHR 0x5C then Some (CHR 0x5C)
      else if e = CHR ''/'' then Some (CHR ''/'')
      else if e = CHR ''b'' then Some (CHR 0x08)
      else if e = CHR ''f'' then Some (CHR 0x0C)
      else if e = CHR ''n'' then Some (CHR 0x0A)
      else if e = CHR ''r'' then Some (CHR 0x0D)
      else if e = CHR ''t'' then Some (CHR 0x09)
      else None)"

fun parse_string_chars :: "string \<Rightarrow> string \<Rightarrow> (string \<times> string) option" where
  "parse_string_chars acc [] = None"
| "parse_string_chars acc [c] = (if c = CHR 0x22 then Some (rev acc, []) else None)"
| "parse_string_chars acc (c # e # cs) =
     (if c = CHR 0x22 then Some (rev acc, e # cs)
      else if c = CHR 0x5C then
        (if e = CHR ''u'' then
           (case cs of
              a # b # x # y # rest \<Rightarrow>
                (case (hex_val a, hex_val b, hex_val x, hex_val y) of
                   (Some 0, Some 0, Some h, Some l) \<Rightarrow>
                     if h < 8 then parse_string_chars (char_of (16 * h + l) # acc) rest else None
                 | _ \<Rightarrow> None)
            | _ \<Rightarrow> None)
         else (case unescape e of
                 None \<Rightarrow> None
               | Some ch \<Rightarrow> parse_string_chars (ch # acc) cs))
      else if (of_char c :: nat) < 32 then None
      else parse_string_chars (c # acc) (e # cs))"

definition parse_number :: "string \<Rightarrow> (json \<times> string) option" where
  "parse_number s =
     (let neg = (case s of [] \<Rightarrow> False | c # cs \<Rightarrow> c = CHR ''-'');
          s1 = (if neg then tl s else s);
          ds = takeWhile is_digit s1;
          rest = dropWhile is_digit s1
      in if ds = [] then None
         else if hd ds = CHR ''0'' \<and> tl ds \<noteq> [] then None
         else if (case rest of [] \<Rightarrow> False | c # cs \<Rightarrow> c \<in> set ''.eE'') then None
         else Some (JNum (if neg then - int_of_digits ds else int_of_digits ds), rest))"

fun parse_value :: "nat \<Rightarrow> string \<Rightarrow> (json \<times> string) option"
  and parse_elements :: "nat \<Rightarrow> json list \<Rightarrow> string \<Rightarrow> (json \<times> string) option"
  and parse_members :: "nat \<Rightarrow> (string \<times> json) list \<Rightarrow> string \<Rightarrow> (json \<times> string) option" where
  "parse_value 0 s = None"
| "parse_value (Suc n) s =
     (case skip_ws s of
        [] \<Rightarrow> None
      | c # cs \<Rightarrow>
          if c = CHR ''{'' then
            (case skip_ws cs of
               [] \<Rightarrow> None
             | d # ds \<Rightarrow> if d = CHR ''}'' then Some (JObj [], ds) else parse_members n [] (d # ds))
          else if c = CHR ''['' then
            (case skip_ws cs of
               [] \<Rightarrow> None
             | d # ds \<Rightarrow> if d = CHR '']'' then Some (JArr [], ds) else parse_elements n [] (d # ds))
          else if c = CHR 0x22 then
            (case parse_string_chars [] cs of None \<Rightarrow> None | Some (str, rest) \<Rightarrow> Some (JStr str, rest))
          else if take 4 (c # cs) = ''null'' then Some (JNull, drop 4 (c # cs))
          else if take 4 (c # cs) = ''true'' then Some (JBool True, drop 4 (c # cs))
          else if take 5 (c # cs) = ''false'' then Some (JBool False, drop 5 (c # cs))
          else parse_number (c # cs))"
| "parse_elements 0 acc s = None"
| "parse_elements (Suc n) acc s =
     (case parse_value n s of
        None \<Rightarrow> None
      | Some (v, rest) \<Rightarrow>
          (case skip_ws rest of
             [] \<Rightarrow> None
           | d # ds \<Rightarrow>
               if d = CHR '','' then parse_elements n (v # acc) ds
               else if d = CHR '']'' then Some (JArr (rev (v # acc)), ds)
               else None))"
| "parse_members 0 acc s = None"
| "parse_members (Suc n) acc s =
     (case skip_ws s of
        [] \<Rightarrow> None
      | q # s1 \<Rightarrow>
          if q \<noteq> CHR 0x22 then None
          else
            (case parse_string_chars [] s1 of
               None \<Rightarrow> None
             | Some (k, s2) \<Rightarrow>
                 (case skip_ws s2 of
                    [] \<Rightarrow> None
                  | c # s3 \<Rightarrow>
                      if c \<noteq> CHR '':'' then None
                      else
                        (case parse_value n s3 of
                           None \<Rightarrow> None
                         | Some (v, s4) \<Rightarrow>
                             (case skip_ws s4 of
                                [] \<Rightarrow> None
                              | d # ds \<Rightarrow>
                                  if d = CHR '','' then parse_members n (set_prop k v acc) ds
                                  else if d = CHR ''}'' then Some (JObj (js_order (set_prop k v acc)), ds)
                                  else None)))))"

definition json_parse :: parser where
  "json_parse s =
     (case parse_value (Suc (length s)) s of
        None \<Rightarrow> None
      | Some (v, rest) \<Rightarrow> if skip_ws rest = [] then Some v else None)"

definition hex_char :: "nat \<Rightarrow> char" where
  "hex_char n = (if n < 10 then char_of (48 + n) else char_of (87 + n))"

definition escape_char :: "char \<Rightarrow> string" where
  "escape_char c =
     (if c = CHR 0x22 then [CHR 0x5C, CHR 0x22]
      else if c = CHR 0x5C then [CHR 0x5C, CHR 0x5C]
      else if c = CHR 0x08 then [CHR 0x5C, CHR ''b'']
      else if c = CHR 0x0C then [CHR 0x5C, CHR ''f'']
      else if c = CHR 0x0A then [CHR 0x5C, CHR ''n'']
      else if c = CHR 0x0D then [CHR 0x5C, CHR ''r'']
      else if c = CHR 0x09 then [CHR 0x5C, CHR ''t'']
      else if (of_char c :: nat) < 32 then
        [CHR 0x5C, CHR ''u'', CHR ''0'', CHR ''0'', hex_char (of_char c div 16), hex_char (of_char c mod 16)]
      else [c])"

definition quote :: "string \<Rightarrow> string" where
  "quote s = CHR 0x22 # concat (map escape_char s) @ [CHR 0x22]"

fun commas :: "string list \<Rightarrow> string" where
  "commas [] = []"
| "commas [x] = x"
| "commas (x # y # ys) = x @ '','' @ commas (y # ys)"

fun json_stringify :: serializer where
  "json_stringify JNull = ''null''"
| "json_stringify (JBool b) = (if b then ''true'' else ''false'')"
| "json_stringify (JNum n) = show_int n"
| "json_stringify (JStr s) = quote s"
| "json_stringify (JArr xs) = ''['' @ commas (map json_stringify xs) @ '']''"
| "json_stringify (JObj ps) =
     ''{'' @ commas (map (\<lambda>p. quote (fst p) @ '':'' @ json_stringify (snd p)) ps) @ ''}''"

text \<open>
  The values that stand for JavaScript values: the keys of an object are distinct and
  listed in enumeration order. \<open>follows\<close> holds of the texts that may come right after a
  value inside a JSON text: nothing, a comma, or a closing bracket or brace.
\<close>

definition follows :: "string \<Rightarrow> bool" where
  "follows rest =
     (case rest of [] \<Rightarrow> True | c # cs \<Rightarrow> c = CHR '','' \<or> c = CHR '']'' \<or> c = CHR ''}'')"

fun wf_json :: "json \<Rightarrow> bool" where
  "wf_json (JArr xs) = list_all wf_json xs"
| "wf_json (JObj ps) =
     (distinct (map fst ps) \<and> js_order ps = ps \<and> list_all wf_json (map snd ps))"
| "wf_json v = True"

section \<open>Sample states\<close>

text \<open>
  A logged-in browser, an anonymous one, and three damaged stores: an identity that is
  not JSON, a token without an identity, and an empty token.
\<close>

definition stored_identity :: string where
  \<open>stored_identity = ''{"id":7,"role":"investigator","is_available":true}''\<close>

definition identity7 :: json where
  "identity7 = JObj [(''id'', JNum 7), (''role'', JStr ''investigator''), (''is_available'', JBool True)]"

definition w_logged_in :: world where
  "w_logged_in = \<lparr>localStorage = [''token'' \<mapsto> ''tok-1'', ''user'' \<mapsto> stored_identity],
     isLoggingOut = False, effects = [], clock = 0, timers = []\<rparr>"

definition w_anonymous :: world where
  "w_anonymous = \<lparr>localStorage = Map.empty, isLoggingOut = False, effects = [], clock = 0, timers = []\<rparr>"

definition w_malformed :: world where
  "w_malformed = \<lparr>localStorage = [''token'' \<mapsto> ''tok-1'', ''user'' \<mapsto> ''{not json''],
     isLoggingOut = False, effects = [], clock = 0, timers = []\<rparr>"

definition w_token_only :: world where
  "w_token_only = \<lparr>localStorage = [''token'' \<mapsto> ''tok-1''],
     isLoggingOut = False, effects = [], clock = 0, timers = []\<rparr>"

definition w_empty_token :: world where
  "w_empty_token = \<lparr>localStorage = [''token'' \<mapsto> [], ''user'' \<mapsto> stored_identity],
     isLoggingOut = False, effects = [], clock = 0, timers = []\<rparr>"

definition w_malformed_only :: world where
  "w_malformed_only = \<lparr>localStorage = [''user'' \<mapsto> ''{not json''],
     isLoggingOut = False, effects = [], clock = 0, timers = []\<rparr>"

definition login_body :: string where
  \<open>login_body = ''{"token":"tok-1","user":{"id":7,"role":"investigator","is_available":true}}''\<close>

definition login_data :: json where
  "login_data = JObj [(''token'', JStr ''tok-1''), (''user'', identity7)]"

definition availability_update :: json where
  "availability_update = JObj [(''is_available'', JBool False), (''name'', JStr ''Ada'')]"

definition merged_identity :: string where
  \<open>merged_identity = ''{"id":7,"role":"investigator","is_available":false,"name":"Ada"}''\<close>

definition reply :: "nat \<Rightarrow> response" where
  "reply code = \<lparr>status = code, resp_text = []\<rparr>"

definition no_options :: fetch_options where
  "no_options = \<lparr>opt_method = None, opt_headers = None, opt_body = None\<rparr>"

section \<open>Basic facts\<close>

lemmas world_ops = emit_def getItem_def setItem_def removeItem_def console_error_def alert_def
  set_location_href_def setTimeout_def dispatchAuthChange_def getToken_def

lemma json_parse_stored_identity: "json_parse stored_identity = Some identity7"
  unfolding stored_identity_def identity7_def by code_simp

lemma stringify_identity7: "json_stringify identity7 = stored_identity"
  unfolding stored_identity_def identity7_def by code_simp

lemma json_parse_not_json: "json_parse ''{not json'' = None"
  by code_simp

lemma authFetch_settle_401:
  "status r = 401 \<Longrightarrow>
   authFetch_settle (Inr r) w =
     (Inl (Error ''Authentication failed''),
      w\<lparr>localStorage := (localStorage w)(''token'' := None, ''user'' := None),
        effects := effects w
          @ [ConsoleError ''Authentication failed - clearing session'' None,
             DispatchEvent ''authChange'']
          @ (if isLoggingOut w then [] else [Alert ''Your session has expired. Please log in again.''])
          @ [Navigate ''/login'',
             ConsoleError ''API request failed:'' (Some (Error ''Authentication failed''))]\<rparr>)"
  by (simp add: authFetch_settle_def world_ops Let_def)

lemma authFetch_settle_403:
  "status r = 403 \<Longrightarrow>
   authFetch_settle (Inr r) w =
     (Inl (Error ''Access forbidden''),
      w\<lparr>localStorage := (localStorage w)(''token'' := None, ''user'' := None),
        effects := effects w
          @ [ConsoleError ''Access forbidden - your session may be outdated. Please log in again.'' None,
             DispatchEvent ''authChange'']
          @ (if isLoggingOut w then [] else [Alert ''Your session is outdated. Please log in again.''])
          @ [Navigate ''/login'',
             ConsoleError ''API request failed:'' (Some (Error ''Access forbidden''))]\<rparr>)"
  by (simp add: authFetch_settle_def world_ops Let_def)

lemma authFetchFormData_settle_401:
  "status r = 401 \<Longrightarrow>
   authFetchFormData_settle (Inr r) w =
     (Inl (Error ''Authentication failed''),
      w\<lparr>localStorage := (localStorage w)(''token'' := None, ''user'' := None),
        effects := effects w
          @ [DispatchEvent ''authChange'']
          @ (if isLoggingOut w then [] else [Alert ''Your session has expired. Please log in again.''])
          @ [Navigate ''/login'',
             ConsoleError ''API request failed:'' (Some (Error ''Authentication failed''))]\<rparr>)"
  by (simp add: authFetchFormData_settle_def world_ops Let_def)

lemma authFetchFormData_settle_other:
  "status r \<noteq> 401 \<Longrightarrow> authFetchFormData_settle (Inr r) w = (Inr r, w)"
  by (simp add: authFetchFormData_settle_def)

lemma alerts_append: "alerts (xs @ ys) = alerts xs @ alerts ys"
  by (induction xs rule: alerts.induct) simp_all

lemma authFetch_settle_effects:
  "\<exists>es. effects (snd (authFetch_settle outcome w)) = effects w @ es"
  by (cases outcome) (auto simp: authFetch_settle_def world_ops Let_def)

lemma authFetchFormData_settle_effects:
  "\<exists>es. effects (snd (authFetchFormData_settle outcome w)) = effects w @ es"
  by (cases outcome) (auto simp: authFetchFormData_settle_def world_ops Let_def)


section \<open>The gateway on authentication failures\<close>

text \<open>
  Claim C1. Whenever the \<^verbatim>\<open>fetch\<close> awaited by \<^verbatim>\<open>authFetch\<close> settles with a response of
  status 401, in whatever state the page is at that moment: the call is rejected with the
  error \<^verbatim>\<open>Authentication failed\<close>; \<^verbatim>\<open>token\<close> and \<^verbatim>\<open>user\<close> are gone from storage; the
  effects are, in this order, the log line, one \<^verbatim>\<open>authChange\<close> event, the "expired" notice
  unless \<^verbatim>\<open>isLoggingOut\<close> is set, the navigation to \<^verbatim>\<open>/login\<close> and the log line of the
  \<^verbatim>\<open>catch\<close>; so exactly one notice is added when the flag is clear and none when it is
  set. A call whose request is answered at once is this continuation run right after the
  request went out.
\<close>

theorem authFetch_401_clears_session:
  assumes "status r = 401"
  shows "fst (authFetch_settle (Inr r) w) = Inl (Error ''Authentication failed'')
       \<and> getItem ''token'' (snd (authFetch_settle (Inr r) w)) = None
       \<and> getItem ''user'' (snd (authFetch_settle (Inr r) w)) = None
       \<and> effects (snd (authFetch_settle (Inr r) w)) =
           effects w
           @ [ConsoleError ''Authentication failed - clearing session'' None,
              DispatchEvent ''authChange'']
           @ (if isLoggingOut w then [] else [Alert ''Your session has expired. Please log in again.''])
           @ [Navigate ''/login'',
              ConsoleError ''API request failed:'' (Some (Error ''Authentication failed''))]
       \<and> alerts (effects (snd (authFetch_settle (Inr r) w))) =
           alerts (effects w)
           @ (if isLoggingOut w then [] else [''Your session has expired. Please log in again.''])
       \<and> (net (authFetch_request url options w) = Inr r \<longrightarrow>
            authFetch net url options w =
              authFetch_settle (Inr r) (emit (Fetch (authFetch_request url options w)) w))"
  using assms by (simp add: authFetch_settle_401 getItem_def alerts_append authFetch_def Let_def)

theorem authFetch_401_clears_session_witness:
  "status (reply 401) = 401
   \<and> authFetch (\<lambda>req. Inr (reply 401)) ''/api/v1/cases'' no_options w_logged_in
       = authFetch_settle (Inr (reply 401))
           (emit (Fetch (authFetch_request ''/api/v1/cases'' no_options w_logged_in)) w_logged_in)
   \<and> fst (authFetch_settle (Inr (reply 401)) w_logged_in) = Inl (Error ''Authentication failed'')
   \<and> getItem ''token'' (snd (authFetch_settle (Inr (reply 401)) w_logged_in)) = None
   \<and> getItem ''user'' (snd (authFetch_settle (Inr (reply 401)) w_logged_in)) = None
   \<and> alerts (effects (snd (authFetch_settle (Inr (reply 401)) w_logged_in)))
       = [''Your session has expired. Please log in again.'']"
proof -
  have h: "status (reply 401) = 401"
    by (simp add: reply_def)
  show ?thesis
    using h authFetch_401_clears_session [OF h, where w = w_logged_in
        and net = "\<lambda>req. Inr (reply 401)" and url = "''/api/v1/cases''" and options = no_options]
    by (simp add: w_logged_in_def)
qed

text \<open>
  Claim C2. A response of status 403 is handled by \<^verbatim>\<open>authFetch\<close> as the claim says, but
  \<^verbatim>\<open>authFetchFormData\<close> checks for 401 only: on the profile-picture upload of a logged-in
  user answered with 403 it hands the response back and leaves the session in place, while
  \<^verbatim>\<open>authFetch\<close> in the same state rejects with \<^verbatim>\<open>Access forbidden\<close> and clears the store.
\<close>

theorem authFetchFormData_403_returned_raw:
  "authFetchFormData (\<lambda>req. Inr (reply 403)) ''/api/v1/settings/profile/picture''
       [(''file'', ''photo.png'')] w_logged_in
     = (Inr (reply 403),
        emit (Fetch (authFetchFormData_request ''/api/v1/settings/profile/picture''
                       [(''file'', ''photo.png'')] w_logged_in)) w_logged_in)
   \<and> getItem ''token'' (snd (authFetchFormData (\<lambda>req. Inr (reply 403))
         ''/api/v1/settings/profile/picture'' [(''file'', ''photo.png'')] w_logged_in)) = Some ''tok-1''
   \<and> fst (authFetch (\<lambda>req. Inr (reply 403)) ''/api/v1/settings/profile'' no_options w_logged_in)
       = Inl (Error ''Access forbidden'')
   \<and> getItem ''token'' (snd (authFetch (\<lambda>req. Inr (reply 403)) ''/api/v1/settings/profile''
         no_options w_logged_in)) = None"
  by (simp add: authFetchFormData_def authFetch_def Let_def reply_def authFetchFormData_settle_other
        authFetch_settle_403 w_logged_in_def world_ops)


section \<open>The headers the gateway sends\<close>

text \<open>
  Claim C6, as stated, fails twice: an empty string stored as the token is not sent, and a
  caller of \<^verbatim>\<open>authFetch\<close> who passes an \<^verbatim>\<open>Authorization\<close> header of their own has it
  sent when no token is stored.
\<close>

theorem authorization_header_counterexample:
  "getToken w_empty_token = Some []
   \<and> req_headers (authFetch_request ''/api/v1/cases'' no_options w_empty_token) ''Authorization'' = None
   \<and> getToken w_anonymous = None
   \<and> req_headers (authFetch_request ''/api/v1/cases''
         (no_options\<lparr>opt_headers := Some [''Authorization'' \<mapsto> ''Basic dXNlcg=='']\<rparr>) w_anonymous)
         ''Authorization'' = Some ''Basic dXNlcg==''"
  by (simp add: authFetch_request_def w_empty_token_def w_anonymous_def no_options_def world_ops)


text \<open>
  Claim C6, amended. With a non-empty token \<open>T\<close> in storage both entry points send
  \<^verbatim>\<open>Authorization: Bearer T\<close> (overriding a caller's header of that name). With no token,
  or an empty one, the gateway adds no such header: the upload variant sends none and
  \<^verbatim>\<open>authFetch\<close> sends only what the caller's own headers carried. In every case the
  request is the first thing that happens: nothing is thrown before it is dispatched.
\<close>

theorem gateway_authorization_header:
  "(getToken w = Some T \<and> T \<noteq> [] \<longrightarrow>
      req_headers (authFetch_request url options w) ''Authorization'' = Some (''Bearer '' @ T)
    \<and> req_headers (authFetchFormData_request url formData w) ''Authorization'' = Some (''Bearer '' @ T))
   \<and> (\<not> string_truthy (getToken w) \<longrightarrow>
      req_headers (authFetch_request url options w) ''Authorization''
        = (case opt_headers options of None \<Rightarrow> None | Some h \<Rightarrow> h ''Authorization'')
    \<and> req_headers (authFetchFormData_request url formData w) ''Authorization'' = None)
   \<and> take (Suc (length (effects w))) (effects (snd (authFetch net url options w)))
        = effects w @ [Fetch (authFetch_request url options w)]
   \<and> take (Suc (length (effects w))) (effects (snd (authFetchFormData net url formData w)))
        = effects w @ [Fetch (authFetchFormData_request url formData w)]"
proof -
  have tok: "getToken w = Some T \<and> T \<noteq> [] \<longrightarrow>
      req_headers (authFetch_request url options w) ''Authorization'' = Some (''Bearer '' @ T)
    \<and> req_headers (authFetchFormData_request url formData w) ''Authorization'' = Some (''Bearer '' @ T)"
    by (simp add: authFetch_request_def authFetchFormData_request_def bearer_def)
  have notok: "\<not> string_truthy (getToken w) \<longrightarrow>
      req_headers (authFetch_request url options w) ''Authorization''
        = (case opt_headers options of None \<Rightarrow> None | Some h \<Rightarrow> h ''Authorization'')
    \<and> req_headers (authFetchFormData_request url formData w) ''Authorization'' = None"
    by (auto simp: authFetch_request_def authFetchFormData_request_def string_truthy_def
          map_add_def split: option.splits)
  obtain es where "effects (snd (authFetch net url options w))
      = (effects w @ [Fetch (authFetch_request url options w)]) @ es"
    using authFetch_settle_effects [of "net (authFetch_request url options w)"
            "emit (Fetch (authFetch_request url options w)) w"]
    by (auto simp: authFetch_def Let_def emit_def)
  then have sent: "take (Suc (length (effects w))) (effects (snd (authFetch net url options w)))
        = effects w @ [Fetch (authFetch_request url options w)]"
    by simp
  obtain es' where "effects (snd (authFetchFormData net url formData w))
      = (effects w @ [Fetch (authFetchFormData_request url formData w)]) @ es'"
    using authFetchFormData_settle_effects [of "net (authFetchFormData_request url formData w)"
            "emit (Fetch (authFetchFormData_request url formData w)) w"]
    by (auto simp: authFetchFormData_def Let_def emit_def)
  then have sent': "take (Suc (length (effects w)))
        (effects (snd (authFetchFormData net url formData w)))
        = effects w @ [Fetch (authFetchFormData_request url formData w)]"
    by simp
  from tok notok sent sent' show ?thesis by blast
qed

theorem gateway_authorization_header_witness:
  "req_headers (authFetch_request ''/api/v1/cases'' no_options w_logged_in) ''Authorization''
     = Some ''Bearer tok-1''
   \<and> req_headers (authFetchFormData_request ''/api/v1/cases'' [] w_logged_in)
       ''Authorization'' = Some ''Bearer tok-1''
   \<and> req_headers (authFetch_request ''/api/v1/cases'' no_options w_anonymous) ''Authorization'' = None
   \<and> req_headers (authFetchFormData_request ''/api/v1/cases'' [] w_anonymous)
       ''Authorization'' = None"
proof -
  have t: "getToken w_logged_in = Some ''tok-1'' \<and> ''tok-1'' \<noteq> []"
    by (simp add: w_logged_in_def getToken_def getItem_def)
  have n: "\<not> string_truthy (getToken w_anonymous)"
    by (simp add: w_anonymous_def getToken_def getItem_def string_truthy_def)
  show ?thesis
    using t n
      gateway_authorization_header [where w = w_logged_in and T = "''tok-1''"
        and url = "''/api/v1/cases''" and options = no_options and formData = "[]"]
      gateway_authorization_header [where w = w_anonymous
        and url = "''/api/v1/cases''" and options = no_options and formData = "[]"]
    by (simp add: no_options_def)
qed


text \<open>
  Claim C7, as stated, fails for a caller who passes a \<^verbatim>\<open>Content-Type\<close> of their own: the
  caller's headers are spread over the default.
\<close>

theorem content_type_counterexample:
  "req_headers (authFetch_request ''/api/v1/cases''
      (no_options\<lparr>opt_headers := Some [''Content-Type'' \<mapsto> ''text/plain'']\<rparr>) w_logged_in)
      ''Content-Type'' = Some ''text/plain''"
  by (simp add: authFetch_request_def w_logged_in_def no_options_def world_ops)


text \<open>
  Claim C7, amended. \<^verbatim>\<open>authFetch\<close> sends \<^verbatim>\<open>Content-Type: application/json\<close> unless the
  caller's headers have a \<^verbatim>\<open>Content-Type\<close> property, whose value is then sent; the upload
  variant never sends a \<^verbatim>\<open>Content-Type\<close>: its header object holds the bearer credential
  or nothing.
\<close>

theorem gateway_content_type:
  "req_headers (authFetch_request url options w) ''Content-Type''
     = (case opt_headers options of
          None \<Rightarrow> Some ''application/json''
        | Some h \<Rightarrow> (case h ''Content-Type'' of
                      None \<Rightarrow> Some ''application/json''
                    | Some v \<Rightarrow> Some v))
   \<and> req_headers (authFetchFormData_request url formData w) ''Content-Type'' = None
   \<and> req_headers (authFetchFormData_request url formData w)
       = (if string_truthy (getToken w) then [''Authorization'' \<mapsto> bearer (getToken w)]
          else Map.empty)"
  by (auto simp: authFetch_request_def authFetchFormData_request_def map_add_def Let_def
        string_truthy_def split: option.splits if_splits)

section \<open>Reading the stored identity\<close>

text \<open>
  Claim C3. With \<^verbatim>\<open>{not json\<close> stored under \<^verbatim>\<open>user\<close>, \<^verbatim>\<open>getCurrentUser\<close> does not return
  absent: its unguarded \<^verbatim>\<open>JSON.parse\<close> throws a \<^verbatim>\<open>SyntaxError\<close>, and it removes nothing.
  The consumer's \<^verbatim>\<open>syncAuthState\<close> guards the same parse: when a token is stored too it
  logs, removes both entries and reports the anonymous state, after which the read
  returns \<^verbatim>\<open>null\<close>. Without a token it never looks at the identity, so the bad entry
  stays and the read keeps throwing.
\<close>

theorem getCurrentUser_malformed_throws:
  "getItem ''user'' w_malformed = Some ''{not json''
   \<and> getCurrentUser json_parse w_malformed = Inl SyntaxError
   \<and> syncAuthState json_parse w_malformed =
       (\<lparr>isLoggedIn = False, user = JNull, isLoading = False\<rparr>,
        w_malformed\<lparr>localStorage := Map.empty,
          effects := [ConsoleError ''Failed to parse user data:'' (Some SyntaxError)]\<rparr>)
   \<and> getCurrentUser json_parse (snd (syncAuthState json_parse w_malformed)) = Inr JNull
   \<and> syncAuthState json_parse w_malformed_only =
       (\<lparr>isLoggedIn = False, user = JNull, isLoading = False\<rparr>, w_malformed_only)
   \<and> getCurrentUser json_parse w_malformed_only = Inl SyntaxError"
  by (simp add: getCurrentUser_def syncAuthState_def w_malformed_def w_malformed_only_def
        json_parse_not_json world_ops string_truthy_def Let_def)


text \<open>
  Claim C4, as stated, fails on a partial store: with a token and no identity the
  derivation reports the anonymous state and leaves the token where it is.
\<close>

theorem syncAuthState_partial_counterexample:
  "getItem ''token'' w_token_only = Some ''tok-1''
   \<and> getItem ''user'' w_token_only = None
   \<and> session_status (fst (syncAuthState json_parse w_token_only)) = Anonymous
   \<and> getItem ''token'' (snd (syncAuthState json_parse w_token_only)) = Some ''tok-1''"
  by (simp add: syncAuthState_def w_token_only_def world_ops string_truthy_def Let_def
        session_status_def)


text \<open>
  Claim C4, amended. The derivation yields \<open>Authenticated v\<close> exactly when a non-empty
  token and a non-empty identity string are stored and the identity parses to \<open>v\<close>, and
  then leaves the state alone. When both are stored and non-empty but the identity does
  not parse, it removes both entries and yields \<open>Anonymous\<close>. In every other case, a
  partial store included, it yields \<open>Anonymous\<close> and changes nothing.
\<close>

theorem syncAuthState_derivation:
  "(getItem ''token'' w = Some t \<and> t \<noteq> [] \<and> getItem ''user'' w = Some u \<and> u \<noteq> []
      \<and> parse u = Some v \<longrightarrow>
        session_status (fst (syncAuthState parse w)) = Authenticated v
      \<and> snd (syncAuthState parse w) = w)
   \<and> (getItem ''token'' w = Some t \<and> t \<noteq> [] \<and> getItem ''user'' w = Some u \<and> u \<noteq> []
      \<and> parse u = None \<longrightarrow>
        session_status (fst (syncAuthState parse w)) = Anonymous
      \<and> localStorage (snd (syncAuthState parse w))
          = (localStorage w)(''token'' := None, ''user'' := None))
   \<and> (\<not> (string_truthy (getItem ''token'' w) \<and> string_truthy (getItem ''user'' w)) \<longrightarrow>
        session_status (fst (syncAuthState parse w)) = Anonymous
      \<and> snd (syncAuthState parse w) = w)"
  by (simp add: syncAuthState_def world_ops string_truthy_def Let_def session_status_def)

theorem syncAuthState_derivation_witness:
  "session_status (fst (syncAuthState json_parse w_logged_in)) = Authenticated identity7
   \<and> snd (syncAuthState json_parse w_logged_in) = w_logged_in
   \<and> session_status (fst (syncAuthState json_parse w_malformed)) = Anonymous
   \<and> localStorage (snd (syncAuthState json_parse w_malformed)) = Map.empty
   \<and> session_status (fst (syncAuthState json_parse w_token_only)) = Anonymous
   \<and> snd (syncAuthState json_parse w_token_only) = w_token_only"
proof -
  have a: "getItem ''token'' w_logged_in = Some ''tok-1'' \<and> ''tok-1'' \<noteq> []
      \<and> getItem ''user'' w_logged_in = Some stored_identity \<and> stored_identity \<noteq> []
      \<and> json_parse stored_identity = Some identity7"
    by (simp add: w_logged_in_def getItem_def json_parse_stored_identity)
       (simp add: stored_identity_def)
  have b: "getItem ''token'' w_malformed = Some ''tok-1'' \<and> ''tok-1'' \<noteq> []
      \<and> getItem ''user'' w_malformed = Some ''{not json'' \<and> ''{not json'' \<noteq> []
      \<and> json_parse ''{not json'' = None"
    by (simp add: w_malformed_def getItem_def json_parse_not_json)
  have c: "\<not> (string_truthy (getItem ''token'' w_token_only)
      \<and> string_truthy (getItem ''user'' w_token_only))"
    by (simp add: w_token_only_def getItem_def string_truthy_def)
  have m: "(localStorage w_malformed)(''token'' := None, ''user'' := None) = Map.empty"
    by (auto simp: w_malformed_def)
  show ?thesis
    using a b c m
      syncAuthState_derivation [where w = w_logged_in and parse = json_parse and t = "''tok-1''"
        and u = stored_identity and v = identity7]
      syncAuthState_derivation [where w = w_malformed and parse = json_parse and t = "''tok-1''"
        and u = "''{not json''"]
      syncAuthState_derivation [where w = w_token_only and parse = json_parse]
    by simp
qed


section \<open>The calls that bypass the gateway\<close>

text \<open>
  Claim C10. Each of \<^verbatim>\<open>getInvestigators\<close>, \<^verbatim>\<open>getInvestigatorDetails\<close>,
  \<^verbatim>\<open>updateInvestigator\<close> and \<^verbatim>\<open>updateInvestigatorAvailability\<close> sends one request whose
  \<^verbatim>\<open>Authorization\<close> header is \<^verbatim>\<open>Bearer\<close> followed by whatever \<^verbatim>\<open>getItem\<close> returned, the
  text \<^verbatim>\<open>Bearer null\<close> when no token is stored, and returns what the network answered,
  whatever its status. The state afterwards differs from the one before by that one
  request only: storage and flag are as they were, and no event, notice or navigation
  was added.
\<close>

theorem investigator_calls_bypass_gateway:
  "bearer None = ''Bearer null''
   \<and> (\<exists>req. getInvestigators net w = (net req, w\<lparr>effects := effects w @ [Fetch req]\<rparr>)
         \<and> req_headers req = [''Authorization'' \<mapsto> bearer (getItem ''token'' w),
                               ''Content-Type'' \<mapsto> ''application/json''])
   \<and> (\<exists>req. getInvestigatorDetails net investigatorId w
           = (net req, w\<lparr>effects := effects w @ [Fetch req]\<rparr>)
         \<and> req_headers req = [''Authorization'' \<mapsto> bearer (getItem ''token'' w),
                               ''Content-Type'' \<mapsto> ''application/json''])
   \<and> (\<exists>req. updateInvestigator stringify net investigatorId data w
           = (net req, w\<lparr>effects := effects w @ [Fetch req]\<rparr>)
         \<and> req_headers req = [''Authorization'' \<mapsto> bearer (getItem ''token'' w),
                               ''Content-Type'' \<mapsto> ''application/json''])
   \<and> (\<exists>req. updateInvestigatorAvailability stringify net isAvailable w
           = (net req, w\<lparr>effects := effects w @ [Fetch req]\<rparr>)
         \<and> req_headers req = [''Authorization'' \<mapsto> bearer (getItem ''token'' w),
                               ''Content-Type'' \<mapsto> ''application/json''])"
proof -
  have a: "\<And>req. \<exists>r. (net req, w\<lparr>effects := effects w @ [Fetch req]\<rparr>)
              = (net r, w\<lparr>effects := effects w @ [Fetch r]\<rparr>)
            \<and> req_headers r = req_headers req"
    by blast
  show ?thesis
    unfolding getInvestigators_def getInvestigatorDetails_def updateInvestigator_def
      updateInvestigatorAvailability_def Let_def emit_def getToken_def
    using a [of "\<lparr>req_url = BASE @ ''/api/v1/admin/investigators'', req_method = None,
                 req_headers = [''Authorization'' \<mapsto> bearer (getItem ''token'' w),
                                ''Content-Type'' \<mapsto> ''application/json''],
                 req_body = None\<rparr>"]
          a [of "\<lparr>req_url = BASE @ ''/api//v1/admin/investigators/'' @ investigatorId,
                 req_method = None,
                 req_headers = [''Authorization'' \<mapsto> bearer (getItem ''token'' w),
                                ''Content-Type'' \<mapsto> ''application/json''],
                 req_body = None\<rparr>"]
          a [of "\<lparr>req_url = BASE @ ''/api//v1/admin/investigators/'' @ investigatorId,
                 req_method = Some ''PUT'',
                 req_headers = [''Authorization'' \<mapsto> bearer (getItem ''token'' w),
                                ''Content-Type'' \<mapsto> ''application/json''],
                 req_body = Some (Text (stringify data))\<rparr>"]
          a [of "\<lparr>req_url = BASE @ ''/api/v1/investigator/availability'',
                 req_method = Some ''PUT'',
                 req_headers = [''Authorization'' \<mapsto> bearer (getItem ''token'' w),
                                ''Content-Type'' \<mapsto> ''application/json''],
                 req_body = Some (Text (stringify (JObj [(''is_available'', isAvailable)])))\<rparr>"]
    by (simp add: bearer_def)
qed

section \<open>Logout and the suppression of the notice\<close>

lemma run_timers_fields:
  "effects (foldl (\<lambda>w p. run_callback (snd p) w) w0 ps) = effects w0
   \<and> localStorage (foldl (\<lambda>w p. run_callback (snd p) w) w0 ps) = localStorage w0
   \<and> clock (foldl (\<lambda>w p. run_callback (snd p) w) w0 ps) = clock w0
   \<and> timers (foldl (\<lambda>w p. run_callback (snd p) w) w0 ps) = timers w0
   \<and> isLoggingOut (foldl (\<lambda>w p. run_callback (snd p) w) w0 ps)
       = (if ps = [] then isLoggingOut w0 else False)"
proof (induction ps rule: rev_induct)
  case Nil
  show ?case by simp
next
  case (snoc p ps)
  then show ?case by (cases "snd p") simp
qed

lemma sort_key_Nil_iff: "sort_key f xs = [] \<longleftrightarrow> xs = []"
  by (metis set_sort set_empty)

lemma advance_fields:
  "effects (advance d w) = effects w"
  "localStorage (advance d w) = localStorage w"
  "clock (advance d w) = clock w + d"
  "timers (advance d w) = filter (\<lambda>p. \<not> fst p \<le> clock w + d) (timers w)"
  "isLoggingOut (advance d w)
     = (if filter (\<lambda>p. fst p \<le> clock w + d) (timers w) = [] then isLoggingOut w else False)"
  by (simp_all add: advance_def Let_def run_timers_fields sort_key_Nil_iff)

lemma logout_fields:
  "effects (logout w) = effects w @ [DispatchEvent ''authChange'', Navigate ''/login'']"
  "localStorage (logout w) = (localStorage w)(''token'' := None, ''user'' := None)"
  "clock (logout w) = clock w"
  "timers (logout w) = timers w @ [(clock w + 1000, ResetLoggingOut)]"
  "isLoggingOut (logout w) = True"
  by (simp_all add: logout_def Let_def world_ops)

lemma flag_within_window:
  assumes "d < 1000" and "list_all (\<lambda>p. clock w + d < fst p) (timers w)"
  shows "isLoggingOut (advance d (logout w))"
proof -
  have "filter (\<lambda>p. fst p \<le> clock w + d) (timers w) = []"
    using assms(2) by (induction "timers w") (auto simp: list_all_iff filter_empty_conv)
  with assms(1) show ?thesis
    by (simp add: advance_fields logout_fields)
qed

lemma flag_after_window:
  assumes "1000 \<le> d"
  shows "\<not> isLoggingOut (advance d (logout w))"
  using assms by (simp add: advance_fields logout_fields)

text \<open>
  Claim C5, as stated, fails when two logouts overlap: the timer of the first one clears
  the flag 1000 ms after the first call, whatever has happened since. A second
  \<^verbatim>\<open>logout\<close> 900 ms after the first, and a 401 arriving 200 ms after the second, well
  inside its window, shows the notice.
\<close>

theorem double_logout_counterexample:
  "(200::nat) < 1000
   \<and> alerts (effects (snd (authFetch_settle (Inr (reply 401))
        (advance 200 (logout (advance 900 (logout w_logged_in)))))))
     = [''Your session has expired. Please log in again.'']"
proof -
  have "\<not> isLoggingOut (advance 200 (logout (advance 900 (logout w_logged_in))))"
    by (simp add: advance_fields logout_fields w_logged_in_def)
  moreover have "effects (advance 200 (logout (advance 900 (logout w_logged_in))))
      = [DispatchEvent ''authChange'', Navigate ''/login'',
         DispatchEvent ''authChange'', Navigate ''/login'']"
    by (simp add: advance_fields logout_fields w_logged_in_def)
  ultimately show ?thesis
    by (simp add: authFetch_settle_401 reply_def)
qed


text \<open>
  Claim C5, amended. If \<^verbatim>\<open>logout\<close> is followed, less than 1000 ms later, by a gateway
  request settling with 401, and no timer that was already pending when \<^verbatim>\<open>logout\<close> was
  called falls due before that moment, then no notice is shown, by either entry point,
  while the session is cleared, the navigation to \<^verbatim>\<open>/login\<close> happens and the call is
  rejected as before. Once 1000 ms have passed since the \<^verbatim>\<open>logout\<close> the flag is clear
  again, and a 401 shows the notice.
\<close>

theorem logout_race_guard:
  "(d < 1000 \<and> list_all (\<lambda>p. clock w + d < fst p) (timers w) \<and> status r = 401 \<longrightarrow>
      alerts (effects (snd (authFetch_settle (Inr r) (advance d (logout w))))) = alerts (effects w)
    \<and> alerts (effects (snd (authFetchFormData_settle (Inr r) (advance d (logout w)))))
        = alerts (effects w)
    \<and> fst (authFetch_settle (Inr r) (advance d (logout w))) = Inl (Error ''Authentication failed'')
    \<and> getItem ''token'' (snd (authFetch_settle (Inr r) (advance d (logout w)))) = None
    \<and> getItem ''user'' (snd (authFetch_settle (Inr r) (advance d (logout w)))) = None
    \<and> effects (snd (authFetch_settle (Inr r) (advance d (logout w))))
        = effects w
          @ [DispatchEvent ''authChange'', Navigate ''/login'']
          @ [ConsoleError ''Authentication failed - clearing session'' None,
             DispatchEvent ''authChange'', Navigate ''/login'',
             ConsoleError ''API request failed:'' (Some (Error ''Authentication failed''))])
   \<and> (1000 \<le> d \<and> status r = 401 \<longrightarrow>
      \<not> isLoggingOut (advance d (logout w))
    \<and> alerts (effects (snd (authFetch_settle (Inr r) (advance d (logout w)))))
        = alerts (effects w) @ [''Your session has expired. Please log in again.''])"
proof (intro conjI impI)
  assume h: "d < 1000 \<and> list_all (\<lambda>p. clock w + d < fst p) (timers w) \<and> status r = 401"
  then have flag: "isLoggingOut (advance d (logout w))"
    by (simp add: flag_within_window)
  from h have r: "status r = 401" by simp
  show "alerts (effects (snd (authFetch_settle (Inr r) (advance d (logout w))))) = alerts (effects w)"
    using flag r by (simp add: authFetch_settle_401 advance_fields logout_fields alerts_append)
  show "alerts (effects (snd (authFetchFormData_settle (Inr r) (advance d (logout w)))))
        = alerts (effects w)"
    using flag r by (simp add: authFetchFormData_settle_401 advance_fields logout_fields alerts_append)
  show "fst (authFetch_settle (Inr r) (advance d (logout w))) = Inl (Error ''Authentication failed'')"
    using r by (simp add: authFetch_settle_401)
  show "getItem ''token'' (snd (authFetch_settle (Inr r) (advance d (logout w)))) = None"
    using r by (simp add: authFetch_settle_401 getItem_def)
  show "getItem ''user'' (snd (authFetch_settle (Inr r) (advance d (logout w)))) = None"
    using r by (simp add: authFetch_settle_401 getItem_def)
  show "effects (snd (authFetch_settle (Inr r) (advance d (logout w))))
        = effects w
          @ [DispatchEvent ''authChange'', Navigate ''/login'']
          @ [ConsoleError ''Authentication failed - clearing session'' None,
             DispatchEvent ''authChange'', Navigate ''/login'',
             ConsoleError ''API request failed:'' (Some (Error ''Authentication failed''))]"
    using flag r by (simp add: authFetch_settle_401 advance_fields logout_fields)
next
  assume h: "1000 \<le> d \<and> status r = 401"
  then show "\<not> isLoggingOut (advance d (logout w))"
    by (simp add: flag_after_window)
next
  assume h: "1000 \<le> d \<and> status r = 401"
  then have flag: "\<not> isLoggingOut (advance d (logout w))"
    by (simp add: flag_after_window)
  from h have r: "status r = 401" by simp
  show "alerts (effects (snd (authFetch_settle (Inr r) (advance d (logout w)))))
        = alerts (effects w) @ [''Your session has expired. Please log in again.'']"
    using flag r by (simp add: authFetch_settle_401 advance_fields logout_fields alerts_append)
qed

theorem logout_race_guard_witness:
  "alerts (effects (snd (authFetch_settle (Inr (reply 401)) (advance 300 (logout w_logged_in))))) = []
   \<and> getItem ''token'' (snd (authFetch_settle (Inr (reply 401)) (advance 300 (logout w_logged_in))))
       = None
   \<and> alerts (effects (snd (authFetch_settle (Inr (reply 401)) (advance 1000 (logout w_logged_in)))))
       = [''Your session has expired. Please log in again.'']"
proof -
  have a: "(300::nat) < 1000
      \<and> list_all (\<lambda>p. clock w_logged_in + 300 < fst p) (timers w_logged_in)
      \<and> status (reply 401) = 401"
    by (simp add: w_logged_in_def reply_def)
  have b: "(1000::nat) \<le> 1000 \<and> status (reply 401) = 401"
    by (simp add: reply_def)
  have e: "alerts (effects w_logged_in) = []"
    by (simp add: w_logged_in_def)
  show ?thesis
    using a b e logout_race_guard [where d = 300 and w = w_logged_in and r = "reply 401"]
      logout_race_guard [where d = 1000 and w = w_logged_in and r = "reply 401"]
    by (simp add: alerts_append)
qed

section \<open>Properties of objects\<close>

lemma map_of_set_prop: "map_of (set_prop k v ps) = (map_of ps)(k \<mapsto> v)"
  by (induction ps) auto

lemma keys_set_prop: "fst ` set (set_prop k v ps) = insert k (fst ` set ps)"
  by (induction ps) auto

lemma distinct_set_prop: "distinct (map fst ps) \<Longrightarrow> distinct (map fst (set_prop k v ps))"
proof (induction ps)
  case Nil
  show ?case by simp
next
  case (Cons p ps)
  then show ?case
    using keys_set_prop [of k v ps] by (cases "fst p = k") auto
qed

lemma distinct_spread:
  "distinct (map fst target) \<Longrightarrow> distinct (map fst (spread target source))"
  unfolding spread_def
  by (induction source arbitrary: target) (simp_all add: distinct_set_prop)

lemma map_of_spread:
  "distinct (map fst source) \<Longrightarrow> map_of (spread target source) = map_of target ++ map_of source"
  unfolding spread_def
proof (induction source arbitrary: target)
  case Nil
  show ?case by simp
next
  case (Cons p ps)
  from Cons.prems have nin: "fst p \<notin> dom (map_of ps)" and d: "distinct (map fst ps)"
    by (auto simp: dom_map_of_conv_image_fst)
  have "map_of (foldl (\<lambda>acc p. set_prop (fst p) (snd p) acc) (set_prop (fst p) (snd p) target) ps)
      = map_of (set_prop (fst p) (snd p) target) ++ map_of ps"
    by (rule Cons.IH [OF d])
  then have "map_of (foldl (\<lambda>acc p. set_prop (fst p) (snd p) acc) target (p # ps))
      = (map_of target)(fst p \<mapsto> snd p) ++ map_of ps"
    by (simp only: map_of_set_prop foldl_Cons)
  also have "\<dots> = map_of target ++ map_of (p # ps)"
    using nin by (cases p) (auto simp: map_add_def fun_eq_iff split: option.splits)
  finally show ?case .
qed

lemma distinct_js_order:
  assumes "distinct (map fst ps)"
  shows "distinct (map fst (js_order ps))"
proof -
  from assms have inj: "inj_on fst (set ps)" and d: "distinct ps"
    by (simp_all add: distinct_map)
  have "set (js_order ps) = set ps"
    by (auto simp: js_order_def)
  moreover have "distinct (js_order ps)"
    using d by (auto simp: js_order_def)
  ultimately show ?thesis
    using inj by (simp add: distinct_map)
qed

lemma map_of_js_order:
  assumes "distinct (map fst ps)"
  shows "map_of (js_order ps) = map_of ps"
proof -
  have "set (js_order ps) = set ps"
    by (auto simp: js_order_def)
  then show ?thesis
    using map_of_inject_set [OF distinct_js_order [OF assms] assms] by simp
qed

lemma object_spread_objects:
  assumes "distinct (map fst a)" and "distinct (map fst b)"
  shows "\<exists>m. object_spread (JObj a) (JObj b) = JObj m \<and> distinct (map fst m)
           \<and> map_of m = map_of a ++ map_of b"
proof -
  let ?m = "spread (spread [] a) b"
  have d: "distinct (map fst ?m)"
    by (simp add: distinct_spread)
  have "map_of ?m = map_of (spread [] a) ++ map_of b"
    using assms(2) by (rule map_of_spread)
  also have "map_of (spread [] a) = map_of a"
    using map_of_spread [OF assms(1), of "[]"] by simp
  finally have m: "map_of ?m = map_of a ++ map_of b" .
  show ?thesis
    unfolding object_spread_def
    using d m by (simp add: distinct_js_order map_of_js_order)
qed

lemma js_order_idem: "js_order (js_order ps) = js_order ps"
proof -
  let ?P = "\<lambda>p. is_array_index (fst p)"
  let ?f = "\<lambda>p. int_of_digits (fst p)"
  let ?A = "sort_key ?f (filter ?P ps)"
  let ?B = "filter (\<lambda>p. \<not> ?P p) ps"
  have a: "filter ?P ?A = ?A" and a': "filter (\<lambda>p. \<not> ?P p) ?A = []"
    by (simp_all add: filter_empty_conv)
  have b: "filter ?P ?B = []" and b': "filter (\<lambda>p. \<not> ?P p) ?B = ?B"
    by (simp_all add: filter_empty_conv)
  have s: "sort_key ?f ?A = ?A"
    by (rule sort_key_id_if_sorted) simp
  have "js_order (?A @ ?B) = ?A @ ?B"
    unfolding js_order_def filter_append a a' b b' by (simp add: s)
  then show ?thesis
    by (simp add: js_order_def)
qed

lemma values_set_prop: "snd ` set (set_prop k v acc) \<subseteq> insert v (snd ` set acc)"
  by (induction acc) auto

lemma wf_members_end:
  assumes "distinct (map fst acc)" and "list_all wf_json (map snd acc)" and "wf_json v"
  shows "wf_json (JObj (js_order (set_prop k v acc)))"
    and "distinct (map fst (set_prop k v acc))"
    and "list_all wf_json (map snd (set_prop k v acc))"
proof -
  show d: "distinct (map fst (set_prop k v acc))"
    using assms(1) by (rule distinct_set_prop)
  have "\<forall>x\<in>snd ` set (set_prop k v acc). wf_json x"
  proof
    fix x
    assume "x \<in> snd ` set (set_prop k v acc)"
    with values_set_prop [of k v acc] have "x = v \<or> x \<in> snd ` set acc"
      by blast
    with assms(2,3) show "wf_json x"
      by (auto simp: list_all_iff)
  qed
  then show w: "list_all wf_json (map snd (set_prop k v acc))"
    by (simp add: list_all_iff)
  have "set (js_order (set_prop k v acc)) = set (set_prop k v acc)"
    by (auto simp: js_order_def)
  with w have "list_all wf_json (map snd (js_order (set_prop k v acc)))"
    by (simp add: list_all_iff)
  then show "wf_json (JObj (js_order (set_prop k v acc)))"
    using d by (simp add: distinct_js_order js_order_idem)
qed


section \<open>The reference codec reads back what it writes\<close>

lemma digit_table:
  "list_all (\<lambda>k. is_digit (digit_char k) \<and> digit_val (digit_char k) = int k
      \<and> ((digit_char k = CHR ''0'') = (k = 0))) [0..<10]"
  by code_simp

lemma digit_char_facts:
  assumes "k < 10"
  shows "is_digit (digit_char k)" and "digit_val (digit_char k) = int k"
    and "(digit_char k = CHR ''0'') = (k = 0)"
proof -
  from assms have "k \<in> set [0..<10]" by simp
  with digit_table have "is_digit (digit_char k) \<and> digit_val (digit_char k) = int k
      \<and> ((digit_char k = CHR ''0'') = (k = 0))"
    unfolding list_all_iff by blast
  then show "is_digit (digit_char k)" and "digit_val (digit_char k) = int k"
    and "(digit_char k = CHR ''0'') = (k = 0)"
    by simp_all
qed

lemma hex_table: "list_all (\<lambda>k. hex_val (hex_char k) = Some k) [0..<16]"
  by code_simp

lemma hex_val_hex_char: "k < 16 \<Longrightarrow> hex_val (hex_char k) = Some k"
proof -
  assume "k < 16"
  then have "k \<in> set [0..<16]" by simp
  with hex_table show ?thesis unfolding list_all_iff by blast
qed

lemma show_nat_digits: "show_nat n \<noteq> [] \<and> list_all is_digit (show_nat n)"
proof (induction n rule: show_nat.induct)
  case (1 n)
  show ?case
  proof (cases "n < 10")
    case True
    then show ?thesis
      by (subst (1 2) show_nat.simps) (simp add: digit_char_facts)
  next
    case False
    then have "n mod 10 < 10" by simp
    with False 1 show ?thesis
      by (subst (1 2) show_nat.simps) (simp add: digit_char_facts)
  qed
qed

lemma int_of_digits_snoc: "int_of_digits (ds @ [c]) = 10 * int_of_digits ds + digit_val c"
  by (simp add: int_of_digits_def)

lemma int_of_digits_show_nat: "int_of_digits (show_nat n) = int n"
proof (induction n rule: show_nat.induct)
  case (1 n)
  show ?case
  proof (cases "n < 10")
    case True
    then show ?thesis
      by (subst show_nat.simps) (simp add: int_of_digits_def digit_char_facts)
  next
    case False
    then have m: "n mod 10 < 10" by simp
    have "int_of_digits (show_nat n) = 10 * int_of_digits (show_nat (n div 10)) + digit_val (digit_char (n mod 10))"
      using False by (subst show_nat.simps) (simp add: int_of_digits_snoc)
    also have "\<dots> = 10 * int (n div 10) + int (n mod 10)"
      using False 1 m by (simp add: digit_char_facts)
    also have "\<dots> = int (10 * (n div 10) + n mod 10)"
      by (simp only: of_nat_add of_nat_mult of_nat_numeral)
    also have "\<dots> = int n"
      by simp
    finally show ?thesis .
  qed
qed

lemma show_nat_no_leading_zero: "hd (show_nat n) = CHR ''0'' \<Longrightarrow> tl (show_nat n) = []"
proof (induction n rule: show_nat.induct)
  case (1 n)
  show ?case
  proof (cases "n < 10")
    case True
    then show ?thesis by (subst show_nat.simps) simp
  next
    case False
    then have eq: "show_nat n = show_nat (n div 10) @ [digit_char (n mod 10)]"
      by (subst show_nat.simps) simp
    have ne: "show_nat (n div 10) \<noteq> []"
      by (simp add: show_nat_digits)
    with eq 1(2) have "hd (show_nat (n div 10)) = CHR ''0''"
      by simp
    with 1(1) False have t: "tl (show_nat (n div 10)) = []"
      by simp
    with ne have "show_nat (n div 10) = [CHR ''0'']"
      using \<open>hd (show_nat (n div 10)) = CHR ''0''\<close> by (cases "show_nat (n div 10)") auto
    then have "int_of_digits (show_nat (n div 10)) = 0"
      by (simp add: int_of_digits_def digit_val_def)
    then have "n div 10 = 0"
      by (simp add: int_of_digits_show_nat)
    with False show ?thesis by simp
  qed
qed

lemma follows_cases:
  assumes "follows rest"
  shows "rest = [] \<or> (\<exists>c cs. rest = c # cs \<and> \<not> is_digit c \<and> \<not> is_ws c
            \<and> c \<notin> set ''.eE'' \<and> (c = CHR '','' \<or> c = CHR '']'' \<or> c = CHR ''}''))"
  using assms by (cases rest) (auto simp: follows_def is_digit_def is_ws_def)

lemma takeWhile_digits:
  assumes "list_all is_digit ds" and "follows rest"
  shows "takeWhile is_digit (ds @ rest) = ds" and "dropWhile is_digit (ds @ rest) = rest"
proof -
  from follows_cases [OF assms(2)] have r: "takeWhile is_digit rest = []"
    and r': "dropWhile is_digit rest = rest"
    by auto
  from assms(1) have a: "\<forall>x\<in>set ds. is_digit x"
    by (simp add: list_all_iff)
  show "takeWhile is_digit (ds @ rest) = ds"
    using a r by (simp add: takeWhile_append2)
  show "dropWhile is_digit (ds @ rest) = rest"
    using a r' by (simp add: dropWhile_append2)
qed

lemma parse_number_digits:
  assumes "list_all is_digit ds" and "ds \<noteq> []"
    and "\<not> (hd ds = CHR ''0'' \<and> tl ds \<noteq> [])" and "follows rest"
  shows "parse_number (ds @ rest) = Some (JNum (int_of_digits ds), rest)"
    and "parse_number (CHR ''-'' # ds @ rest) = Some (JNum (- int_of_digits ds), rest)"
proof -
  have tail: "\<not> (case rest of [] \<Rightarrow> False | c # cs \<Rightarrow> c \<in> set ''.eE'')"
    using follows_cases [OF assms(4)] by auto
  obtain c cs where h: "ds = c # cs"
    using assms(2) by (cases ds) auto
  with assms(1) have "is_digit c" by simp
  then have nm: "c \<noteq> CHR ''-''"
    by (auto simp: is_digit_def)
  have tw: "takeWhile is_digit ((c # cs) @ rest) = c # cs"
    and dw: "dropWhile is_digit ((c # cs) @ rest) = rest"
    using takeWhile_digits [OF assms(1,4)] h by simp_all
  have z: "\<not> (c = CHR ''0'' \<and> cs \<noteq> [])"
    using assms(3) h by simp
  have n0: "(case (c # cs) @ rest of [] \<Rightarrow> False | x # xs \<Rightarrow> x = CHR ''-'') = False"
    using nm by simp
  have n1: "(case CHR ''-'' # (c # cs) @ rest of [] \<Rightarrow> False | x # xs \<Rightarrow> x = CHR ''-'') = True"
    and t1: "tl (CHR ''-'' # (c # cs) @ rest) = (c # cs) @ rest"
    by simp_all
  have "parse_number ((c # cs) @ rest) = Some (JNum (int_of_digits (c # cs)), rest)"
    unfolding parse_number_def Let_def
    by (simp only: n0 if_False tw dw) (use tail z in simp)
  then show "parse_number (ds @ rest) = Some (JNum (int_of_digits ds), rest)"
    using h by simp
  have "parse_number (CHR ''-'' # (c # cs) @ rest) = Some (JNum (- int_of_digits (c # cs)), rest)"
    unfolding parse_number_def Let_def
    by (simp only: n1 t1 if_True tw dw) (use tail z in simp)
  then show "parse_number (CHR ''-'' # ds @ rest) = Some (JNum (- int_of_digits ds), rest)"
    using h by simp
qed

lemma parse_number_show_int:
  assumes "follows rest"
  shows "parse_number (show_int i @ rest) = Some (JNum i, rest)"
proof -
  have d: "\<And>n. list_all is_digit (show_nat n)" and ne: "\<And>n. show_nat n \<noteq> []"
    by (simp_all add: show_nat_digits)
  have z: "\<And>n. \<not> (hd (show_nat n) = CHR ''0'' \<and> tl (show_nat n) \<noteq> [])"
    using show_nat_no_leading_zero by blast
  show ?thesis
  proof (cases "i < 0")
    case True
    then show ?thesis
      using parse_number_digits(2) [OF d ne z assms, of "nat (- i)"]
      by (simp add: show_int_def int_of_digits_show_nat)
  next
    case False
    then show ?thesis
      using parse_number_digits(1) [OF d ne z assms, of "nat i"]
      by (simp add: show_int_def int_of_digits_show_nat)
  qed
qed

lemma hex_val_zero: "hex_val (CHR ''0'') = Some 0"
  by code_simp

lemma parse_string_step:
  assumes "tail \<noteq> []"
  shows "parse_string_chars acc (escape_char c @ tail) = parse_string_chars (c # acc) tail"
proof -
  obtain e cs where t: "tail = e # cs"
    using assms by (cases tail) auto
  consider (named) "c \<in> {CHR 0x22, CHR 0x5C, CHR 0x08, CHR 0x0C, CHR 0x0A, CHR 0x0D, CHR 0x09}"
    | (control) "c \<notin> {CHR 0x22, CHR 0x5C, CHR 0x08, CHR 0x0C, CHR 0x0A, CHR 0x0D, CHR 0x09}"
        "(of_char c :: nat) < 32"
    | (plain) "c \<notin> {CHR 0x22, CHR 0x5C, CHR 0x08, CHR 0x0C, CHR 0x0A, CHR 0x0D, CHR 0x09}"
        "\<not> (of_char c :: nat) < 32"
    by blast
  then show ?thesis
  proof cases
    case named
    then show ?thesis
      by (auto simp: escape_char_def unescape_def)
  next
    case control
    let ?n = "of_char c :: nat"
    have hi: "hex_val (hex_char (?n div 16)) = Some (?n div 16)"
      using control(2) by (simp add: hex_val_hex_char)
    have lo: "hex_val (hex_char (?n mod 16)) = Some (?n mod 16)"
      by (simp add: hex_val_hex_char)
    have small: "?n div 16 < 8"
      using control(2) by simp
    have recon: "char_of (16 * (?n div 16) + ?n mod 16) = c"
      by simp
    have "escape_char c = [CHR 0x5C, CHR ''u'', CHR ''0'', CHR ''0'',
        hex_char (?n div 16), hex_char (?n mod 16)]"
      using control by (simp add: escape_char_def)
    then show ?thesis
      using hi lo small recon by (simp add: hex_val_zero)
  next
    case plain
    then have "escape_char c = [c]"
      by (simp add: escape_char_def)
    then show ?thesis
      using plain t by simp
  qed
qed

lemma parse_string_chars_escaped:
  "parse_string_chars acc (concat (map escape_char s) @ CHR 0x22 # rest) = Some (rev acc @ s, rest)"
proof (induction s arbitrary: acc)
  case Nil
  show ?case by (cases rest) simp_all
next
  case (Cons c s)
  have "parse_string_chars acc (escape_char c @ (concat (map escape_char s) @ CHR 0x22 # rest))
      = parse_string_chars (c # acc) (concat (map escape_char s) @ CHR 0x22 # rest)"
    by (rule parse_string_step) simp
  then show ?case
    using Cons.IH [of "c # acc"] by simp
qed

lemma parse_quoted:
  "parse_string_chars [] (tl (quote s) @ rest) = Some (s, rest)"
  using parse_string_chars_escaped [of "[]" s rest] by (simp add: quote_def)

lemma quote_head: "quote s = CHR 0x22 # tl (quote s)"
  by (simp add: quote_def)

lemma show_int_head:
  "\<exists>c cs. show_int i = c # cs \<and> (is_digit c \<or> c = CHR ''-'')"
proof (cases "i < 0")
  case True
  then show ?thesis by (simp add: show_int_def)
next
  case False
  obtain c cs where h: "show_nat (nat i) = c # cs"
    using show_nat_digits [of "nat i"] by (cases "show_nat (nat i)") auto
  with show_nat_digits [of "nat i"] have "is_digit c" by simp
  with h False show ?thesis by (simp add: show_int_def)
qed

lemma parse_value_number:
  assumes "follows r"
  shows "parse_value (Suc n) (show_int i @ r) = Some (JNum i, r)"
proof -
  obtain c cs where h: "show_int i = c # cs" and d: "is_digit c \<or> c = CHR ''-''"
    using show_int_head by blast
  from d have "parse_value (Suc n) (c # (cs @ r)) = parse_number (c # (cs @ r))"
    by (auto simp: is_digit_def skip_ws_def is_ws_def)
  then show ?thesis
    using parse_number_show_int [OF assms, of i] h by simp
qed

lemma stringify_head:
  "\<exists>c cs. json_stringify v = c # cs \<and> \<not> is_ws c \<and> c \<noteq> CHR '']'' \<and> c \<noteq> CHR ''}''"
proof (cases v)
  case (JNum i)
  obtain c cs where "show_int i = c # cs" and "is_digit c \<or> c = CHR ''-''"
    using show_int_head by blast
  with JNum show ?thesis
    by (auto simp: is_digit_def is_ws_def)
qed (auto simp: is_ws_def quote_def)

lemma skip_ws_stringify: "skip_ws (json_stringify v @ r) = json_stringify v @ r"
  using stringify_head [of v] by (auto simp: skip_ws_def)

lemma skip_ws_follow:
  "skip_ws (CHR '','' # r) = CHR '','' # r"
  "skip_ws (CHR '']'' # r) = CHR '']'' # r"
  "skip_ws (CHR ''}'' # r) = CHR ''}'' # r"
  "skip_ws (CHR '':'' # r) = CHR '':'' # r"
  "skip_ws (CHR 0x22 # r) = CHR 0x22 # r"
  by (simp_all add: skip_ws_def is_ws_def)

lemma parse_elements_stringify:
  assumes "\<And>x n r. x \<in> set xs \<Longrightarrow> length (json_stringify x) < n \<Longrightarrow> follows r
             \<Longrightarrow> parse_value n (json_stringify x @ r) = Some (x, r)"
    and "xs \<noteq> []"
    and "length (commas (map json_stringify xs)) + 1 < n"
  shows "parse_elements n acc (commas (map json_stringify xs) @ CHR '']'' # rest)
           = Some (JArr (rev acc @ xs), rest)"
  using assms
proof (induction xs arbitrary: n acc)
  case Nil
  then show ?case by simp
next
  case (Cons x xs)
  note pv = Cons.prems(1) and fuel = Cons.prems(3) and ih = Cons.IH
  obtain m where n: "n = Suc m"
    using fuel by (cases n) auto
  show ?case
  proof (cases xs)
    case Nil
    have "parse_value m (json_stringify x @ CHR '']'' # rest) = Some (x, CHR '']'' # rest)"
      using fuel by (intro pv) (simp_all add: follows_def n Nil)
    then show ?thesis
      by (simp add: n Nil skip_ws_follow)
  next
    case (Cons y ys)
    let ?more = "commas (map json_stringify (y # ys)) @ CHR '']'' # rest"
    have "parse_value m (json_stringify x @ CHR '','' # ?more) = Some (x, CHR '','' # ?more)"
      using fuel by (intro pv) (simp_all add: follows_def n Cons)
    moreover have "parse_elements m (x # acc) ?more = Some (JArr (rev (x # acc) @ (y # ys)), rest)"
      using fuel pv unfolding Cons [symmetric]
      by (intro ih) (simp_all add: n Cons)
    ultimately show ?thesis
      by (simp add: n Cons skip_ws_follow)
  qed
qed

lemma set_prop_new: "k \<notin> fst ` set acc \<Longrightarrow> set_prop k v acc = acc @ [(k, v)]"
  by (induction acc) auto

lemma spread_distinct: "distinct (map fst (acc @ ps)) \<Longrightarrow> spread acc ps = acc @ ps"
  unfolding spread_def
proof (induction ps arbitrary: acc)
  case Nil
  show ?case by simp
next
  case (Cons p ps)
  from Cons.prems have new: "fst p \<notin> fst ` set acc"
    by auto
  from Cons.prems have "distinct (map fst ((acc @ [p]) @ ps))"
    by simp
  from Cons.IH [OF this] show ?case
    using set_prop_new [OF new, of "snd p"] by simp
qed

lemma commas_head:
  "\<exists>w. commas ((c # u) # ss) @ t = c # w"
  by (cases ss) simp_all

lemma parse_members_step:
  assumes "parse_value n (json_stringify v @ d # ds) = Some (v, d # ds)"
  shows "d = CHR '','' \<Longrightarrow>
           parse_members (Suc n) acc (quote k @ '':'' @ json_stringify v @ d # ds)
             = parse_members n (set_prop k v acc) ds"
    and "d = CHR ''}'' \<Longrightarrow>
           parse_members (Suc n) acc (quote k @ '':'' @ json_stringify v @ d # ds)
             = Some (JObj (js_order (set_prop k v acc)), ds)"
proof -
  have s: "quote k @ '':'' @ json_stringify v @ d # ds
      = CHR 0x22 # (tl (quote k) @ CHR '':'' # (json_stringify v @ d # ds))"
    by (simp add: quote_def)
  show "d = CHR '','' \<Longrightarrow>
           parse_members (Suc n) acc (quote k @ '':'' @ json_stringify v @ d # ds)
             = parse_members n (set_prop k v acc) ds"
    unfolding s using assms by (simp add: parse_quoted skip_ws_follow)
  show "d = CHR ''}'' \<Longrightarrow>
           parse_members (Suc n) acc (quote k @ '':'' @ json_stringify v @ d # ds)
             = Some (JObj (js_order (set_prop k v acc)), ds)"
    unfolding s using assms by (simp add: parse_quoted skip_ws_follow)
qed

lemma parse_members_stringify:
  assumes "\<And>p n r. p \<in> set ps \<Longrightarrow> length (json_stringify (snd p)) < n \<Longrightarrow> follows r
             \<Longrightarrow> parse_value n (json_stringify (snd p) @ r) = Some (snd p, r)"
    and "ps \<noteq> []"
    and "length (commas (map (\<lambda>p. quote (fst p) @ '':'' @ json_stringify (snd p)) ps)) + 1 < n"
  shows "parse_members n acc
           (commas (map (\<lambda>p. quote (fst p) @ '':'' @ json_stringify (snd p)) ps) @ CHR ''}'' # rest)
           = Some (JObj (js_order (spread acc ps)), rest)"
  using assms
proof (induction ps arbitrary: n acc)
  case Nil
  then show ?case by simp
next
  case (Cons p ps)
  note pv = Cons.prems(1) and fuel = Cons.prems(3) and ih = Cons.IH
  obtain m where n: "n = Suc m"
    using fuel by (cases n) auto
  have sp: "spread acc (p # ps) = spread (set_prop (fst p) (snd p) acc) ps"
    by (simp add: spread_def)
  show ?case
  proof (cases ps)
    case Nil
    have "parse_value m (json_stringify (snd p) @ CHR ''}'' # rest) = Some (snd p, CHR ''}'' # rest)"
      using fuel by (intro pv) (simp_all add: follows_def n Nil)
    from parse_members_step(2) [OF this, of acc "fst p"] show ?thesis
      by (simp add: n Nil spread_def del: parse_members.simps)
  next
    case (Cons q qs)
    let ?more = "commas (map (\<lambda>p. quote (fst p) @ '':'' @ json_stringify (snd p)) (q # qs))
        @ CHR ''}'' # rest"
    have "parse_value m (json_stringify (snd p) @ CHR '','' # ?more) = Some (snd p, CHR '','' # ?more)"
      using fuel by (intro pv) (simp_all add: follows_def n Cons)
    from parse_members_step(1) [OF this, of acc "fst p"]
    have "parse_members (Suc m) acc
        (quote (fst p) @ '':'' @ json_stringify (snd p) @ CHR '','' # ?more)
        = parse_members m (set_prop (fst p) (snd p) acc) ?more"
      by (simp del: parse_members.simps)
    moreover have "parse_members m (set_prop (fst p) (snd p) acc) ?more
        = Some (JObj (js_order (spread (set_prop (fst p) (snd p) acc) (q # qs))), rest)"
      using fuel pv unfolding Cons [symmetric]
      by (intro ih) (simp_all add: n Cons)
    ultimately show ?thesis
      by (simp add: n Cons spread_def del: parse_members.simps)
  qed
qed

lemma parse_value_stringify:
  "wf_json v \<Longrightarrow> length (json_stringify v) < n \<Longrightarrow> follows r
     \<Longrightarrow> parse_value n (json_stringify v @ r) = Some (v, r)"
proof (induction v arbitrary: n r)
  case JNull
  then obtain m where "n = Suc m" by (cases n) auto
  then show ?case by (simp add: skip_ws_def is_ws_def)
next
  case (JBool b)
  then obtain m where "n = Suc m" by (cases n) auto
  then show ?case by (cases b) (simp_all add: skip_ws_def is_ws_def)
next
  case (JNum i)
  then obtain m where "n = Suc m" by (cases n) auto
  with JNum show ?case by (simp add: parse_value_number del: parse_value.simps)
next
  case (JStr s)
  then obtain m where n: "n = Suc m" by (cases n) auto
  have eq: "json_stringify (JStr s) @ r = CHR 0x22 # (tl (quote s) @ r)"
    by (simp add: quote_def)
  have "parse_value (Suc m) (CHR 0x22 # (tl (quote s) @ r)) = Some (JStr s, r)"
    by (simp add: parse_quoted skip_ws_follow)
  then show ?case
    unfolding n eq .
next
  case (JArr xs)
  then obtain m where n: "n = Suc m" by (cases n) auto
  show ?case
  proof (cases xs)
    case Nil
    then show ?thesis by (simp add: n skip_ws_def is_ws_def)
  next
    case (Cons y ys)
    obtain c u where hd: "json_stringify y = c # u" and c: "\<not> is_ws c" "c \<noteq> CHR '']''"
      using stringify_head [of y] by blast
    obtain w where w: "commas (map json_stringify xs) @ CHR '']'' # r = c # w"
      using commas_head [of c u "map json_stringify ys"] hd Cons by auto
    have "parse_elements m [] (commas (map json_stringify xs) @ CHR '']'' # r)
        = Some (JArr (rev [] @ xs), r)"
    proof (rule parse_elements_stringify)
      fix x k t
      assume "x \<in> set xs" and "length (json_stringify x) < k" and "follows t"
      with JArr.IH [of x k t] JArr.prems(1)
      show "parse_value k (json_stringify x @ t) = Some (x, t)"
        by (simp add: list_all_iff)
    next
      show "xs \<noteq> []" using Cons by simp
    next
      show "length (commas (map json_stringify xs)) + 1 < m"
        using JArr.prems(2) n by simp
    qed
    then have pe: "parse_elements m [] (c # w) = Some (JArr xs, r)"
      using w by simp
    have eq: "json_stringify (JArr xs) @ r = CHR ''['' # c # w"
      using w by simp
    have "parse_value (Suc m) (CHR ''['' # c # w) = Some (JArr xs, r)"
      using c pe by (simp add: skip_ws_def is_ws_def)
    then show ?thesis
      unfolding n eq .
  qed
next
  case (JObj ps)
  then obtain m where n: "n = Suc m" by (cases n) auto
  let ?mem = "\<lambda>p. quote (fst p) @ '':'' @ json_stringify (snd p)"
  show ?case
  proof (cases ps)
    case Nil
    then show ?thesis by (simp add: n skip_ws_def is_ws_def)
  next
    case (Cons q qs)
    obtain w where w: "commas (map ?mem ps) @ CHR ''}'' # r = CHR 0x22 # w"
      using commas_head [of "CHR 0x22" _ "map ?mem qs"] Cons by (auto simp: quote_def)
    from JObj.prems(1) have wf: "distinct (map fst ps)" "js_order ps = ps"
      "list_all wf_json (map snd ps)"
      by simp_all
    have "parse_members m [] (commas (map ?mem ps) @ CHR ''}'' # r)
        = Some (JObj (js_order (spread [] ps)), r)"
    proof (rule parse_members_stringify)
      fix p k t
      assume p: "p \<in> set ps" and "length (json_stringify (snd p)) < k" and "follows t"
      moreover from p wf(3) have "wf_json (snd p)"
        by (simp add: list_all_iff)
      moreover have "snd p \<in> Basic_BNFs.snds p"
        by (cases p) simp
      ultimately show "parse_value k (json_stringify (snd p) @ t) = Some (snd p, t)"
        using JObj.IH [of p "snd p" k t] by simp
    next
      show "ps \<noteq> []" using Cons by simp
    next
      show "length (commas (map ?mem ps)) + 1 < m"
        using JObj.prems(2) n by simp
    qed
    then have pm: "parse_members m [] (CHR 0x22 # w) = Some (JObj ps, r)"
      using w wf spread_distinct [of "[]" ps] by simp
    have eq: "json_stringify (JObj ps) @ r = CHR ''{'' # CHR 0x22 # w"
      using w by simp
    have "parse_value (Suc m) (CHR ''{'' # CHR 0x22 # w) = Some (JObj ps, r)"
      using pm by (simp add: skip_ws_def is_ws_def)
    then show ?thesis
      unfolding n eq .
  qed
qed

lemma json_round_trip: "wf_json v \<Longrightarrow> json_parse (json_stringify v) = Some v"
  using parse_value_stringify [of v "Suc (length (json_stringify v))" "[]"]
  by (simp add: json_parse_def follows_def skip_ws_def)

lemma parse_number_wf: "parse_number s = Some (v, r) \<Longrightarrow> wf_json v"
  by (auto simp: parse_number_def Let_def split: if_splits)

lemma parse_wf:
  "(\<forall>s v r. parse_value n s = Some (v, r) \<longrightarrow> wf_json v)
   \<and> (\<forall>acc s v r. list_all wf_json acc \<longrightarrow> parse_elements n acc s = Some (v, r) \<longrightarrow> wf_json v)
   \<and> (\<forall>acc s v r. distinct (map fst acc) \<and> list_all wf_json (map snd acc) \<longrightarrow>
         parse_members n acc s = Some (v, r) \<longrightarrow> wf_json v)"
proof (induction n)
  case 0
  show ?case by simp
next
  case (Suc n)
  then have pv: "\<And>s v r. parse_value n s = Some (v, r) \<Longrightarrow> wf_json v"
    and pe: "\<And>acc s v r. list_all wf_json acc \<Longrightarrow> parse_elements n acc s = Some (v, r) \<Longrightarrow> wf_json v"
    and pm: "\<And>acc s v r. distinct (map fst acc) \<Longrightarrow> list_all wf_json (map snd acc) \<Longrightarrow>
         parse_members n acc s = Some (v, r) \<Longrightarrow> wf_json v"
    by blast+
  have 1: "\<forall>s v r. parse_value (Suc n) s = Some (v, r) \<longrightarrow> wf_json v"
  proof (intro allI impI)
    fix s v r
    assume "parse_value (Suc n) s = Some (v, r)"
    then show "wf_json v"
      using pe [of "[]"] pm [of "[]"]
      by (auto simp: js_order_def split: list.splits if_splits option.splits dest: parse_number_wf)
  qed
  have 2: "\<forall>acc s v r. list_all wf_json acc \<longrightarrow> parse_elements (Suc n) acc s = Some (v, r)
      \<longrightarrow> wf_json v"
  proof (intro allI impI)
    fix acc s v r
    assume acc: "list_all wf_json acc" and p: "parse_elements (Suc n) acc s = Some (v, r)"
    from p obtain x rest where x: "parse_value n s = Some (x, rest)"
      by (auto split: option.splits)
    then have wx: "wf_json x" by (rule pv)
    with acc have acc': "list_all wf_json (x # acc)" by simp
    from p x show "wf_json v"
      using pe [OF acc'] acc' by (auto split: list.splits if_splits simp: list_all_iff)
  qed
  have 3: "\<forall>acc s v r. distinct (map fst acc) \<and> list_all wf_json (map snd acc) \<longrightarrow>
         parse_members (Suc n) acc s = Some (v, r) \<longrightarrow> wf_json v"
  proof (intro allI impI)
    fix acc s v r
    assume acc: "distinct (map fst acc) \<and> list_all wf_json (map snd acc)"
      and p: "parse_members (Suc n) acc s = Some (v, r)"
    from p obtain k x s3 s4 d ds where x: "parse_value n s3 = Some (x, s4)"
      and e: "skip_ws s4 = d # ds"
      and res: "(if d = CHR '','' then parse_members n (set_prop k x acc) ds
                else if d = CHR ''}'' then Some (JObj (js_order (set_prop k x acc)), ds)
                else None) = Some (v, r)"
      by (auto split: list.splits if_splits option.splits)
    from x have wx: "wf_json x" by (rule pv)
    note w = wf_members_end [OF conjunct1 [OF acc] conjunct2 [OF acc] wx, of k]
    from res show "wf_json v"
      using w pm [OF w(2) w(3)] by (auto split: if_splits)
  qed
  from 1 2 3 show ?case by blast
qed

lemma json_parse_wf:
  assumes "json_parse s = Some v"
  shows "wf_json v"
proof -
  from parse_wf [of "Suc (length s)"]
  have pv: "\<And>v r. parse_value (Suc (length s)) s = Some (v, r) \<Longrightarrow> wf_json v"
    by blast
  from assms obtain r where "parse_value (Suc (length s)) s = Some (v, r)"
    by (auto simp: json_parse_def split: option.splits if_splits simp del: parse_value.simps)
  then show ?thesis by (rule pv)
qed

lemma get_member_wf:
  assumes "wf_json data" and "get_member data k = Inr (Some v)"
  shows "wf_json v"
proof (cases data)
  case (JObj ps)
  with assms(2) have "map_of ps k = Some v"
    by (simp add: get_member_def)
  then have "(k, v) \<in> set ps"
    by (rule map_of_SomeD)
  with assms(1) JObj show ?thesis
    by (auto simp: list_all_iff)
qed (use assms(2) in \<open>simp_all add: get_member_def\<close>)

section \<open>Writing and reading the session\<close>

lemma json_parse_login_body: "json_parse login_body = Some login_data"
  unfolding login_body_def login_data_def identity7_def by code_simp

text \<open>
  What \<^verbatim>\<open>login\<close> leaves behind on an \<^verbatim>\<open>ok\<close> response whose decoded body has a string
  token and a user, for any parser and serializer.
\<close>

lemma login_settle_stores:
  assumes "ok res"
    and "parse (resp_text res) = Some data"
    and "get_member data ''token'' = Inr (Some (JStr T))"
    and "get_member data ''user'' = Inr (Some I)"
  shows "login_settle parse stringify (Inr res) w
    = (Inr res,
       w\<lparr>localStorage := (localStorage w)(''token'' \<mapsto> T, ''user'' \<mapsto> stringify I),
         effects := effects w @ [DispatchEvent ''authChange'']\<rparr>)"
  using assms
  by (simp add: login_settle_def Let_def world_ops to_js_string_opt_def)

lemma stringify_nonempty: "json_stringify v \<noteq> []"
  using stringify_head [of v] by auto

lemma login_body_parses:
  assumes "wf_json I"
  shows "json_parse (json_stringify (JObj [(''token'', JStr T), (''user'', I)]))
    = Some (JObj [(''token'', JStr T), (''user'', I)])"
proof (rule json_round_trip)
  have "js_order [(''token'', JStr T), (''user'', I)] = [(''token'', JStr T), (''user'', I)]"
    by (simp add: js_order_def is_array_index_def is_digit_def)
  with assms show "wf_json (JObj [(''token'', JStr T), (''user'', I)])"
    by simp
qed

text \<open>
  Claim C8. When the login request is answered with an \<^verbatim>\<open>ok\<close> response whose body
  decodes to an object with the string \<open>T\<close> as \<^verbatim>\<open>token\<close> and the value \<open>I\<close> as \<^verbatim>\<open>user\<close>,
  then right after \<^verbatim>\<open>login\<close> has stored them \<^verbatim>\<open>getToken\<close> returns exactly \<open>T\<close> and
  \<^verbatim>\<open>getCurrentUser\<close> returns \<open>I\<close>, one \<^verbatim>\<open>authChange\<close> event having been dispatched. Such a
  response exists for every string \<open>T\<close> and every value \<open>I\<close>: its body is the
  serialization of the two. \<^verbatim>\<open>JSON.parse\<close> and \<^verbatim>\<open>JSON.stringify\<close> are the reference codec,
  which reads back every value it writes.
\<close>

theorem login_round_trip:
  "(ok res \<and> json_parse (resp_text res) = Some data
      \<and> get_member data ''token'' = Inr (Some (JStr T))
      \<and> get_member data ''user'' = Inr (Some I) \<longrightarrow>
        fst (login_settle json_parse json_stringify (Inr res) w) = Inr res
      \<and> getToken (snd (login_settle json_parse json_stringify (Inr res) w)) = Some T
      \<and> getCurrentUser json_parse (snd (login_settle json_parse json_stringify (Inr res) w))
          = Inr I
      \<and> effects (snd (login_settle json_parse json_stringify (Inr res) w))
          = effects w @ [DispatchEvent ''authChange'']
      \<and> (net (login_request json_stringify email password) = Inr res \<longrightarrow>
            login json_parse json_stringify net email password w
              = login_settle json_parse json_stringify (Inr res)
                  (emit (Fetch (login_request json_stringify email password)) w)))
   \<and> (wf_json I' \<longrightarrow>
        getToken (snd (login_settle json_parse json_stringify
            (Inr \<lparr>status = 200,
                  resp_text = json_stringify (JObj [(''token'', JStr T'), (''user'', I')])\<rparr>) w))
          = Some T'
      \<and> getCurrentUser json_parse (snd (login_settle json_parse json_stringify
            (Inr \<lparr>status = 200,
                  resp_text = json_stringify (JObj [(''token'', JStr T'), (''user'', I')])\<rparr>) w))
          = Inr I')"
proof (intro conjI impI)
  assume h: "ok res \<and> json_parse (resp_text res) = Some data
      \<and> get_member data ''token'' = Inr (Some (JStr T))
      \<and> get_member data ''user'' = Inr (Some I)"
  then have "wf_json data"
    using json_parse_wf [of "resp_text res" data] by simp
  with h have "wf_json I"
    by (blast intro: get_member_wf)
  then have rt: "json_parse (json_stringify I) = Some I"
    by (rule json_round_trip)
  from h have st: "login_settle json_parse json_stringify (Inr res) w
    = (Inr res,
       w\<lparr>localStorage := (localStorage w)(''token'' \<mapsto> T, ''user'' \<mapsto> json_stringify I),
         effects := effects w @ [DispatchEvent ''authChange'']\<rparr>)"
    by (simp add: login_settle_stores)
  show "fst (login_settle json_parse json_stringify (Inr res) w) = Inr res"
    by (simp add: st)
  show "getToken (snd (login_settle json_parse json_stringify (Inr res) w)) = Some T"
    by (simp add: st getToken_def getItem_def)
  show "getCurrentUser json_parse (snd (login_settle json_parse json_stringify (Inr res) w))
          = Inr I"
    by (simp add: st getCurrentUser_def getItem_def rt stringify_nonempty)
  show "effects (snd (login_settle json_parse json_stringify (Inr res) w))
          = effects w @ [DispatchEvent ''authChange'']"
    by (simp add: st)
  show "login json_parse json_stringify net email password w
              = login_settle json_parse json_stringify (Inr res)
                  (emit (Fetch (login_request json_stringify email password)) w)"
    if "net (login_request json_stringify email password) = Inr res"
    using that by (simp add: login_def Let_def)
next
  assume wf: "wf_json I'"
  let ?data = "JObj [(''token'', JStr T'), (''user'', I')]"
  let ?res = "\<lparr>status = 200, resp_text = json_stringify ?data\<rparr>"
  have rt: "json_parse (json_stringify I') = Some I'"
    using wf by (rule json_round_trip)
  have "login_settle json_parse json_stringify (Inr ?res) w
    = (Inr ?res,
       w\<lparr>localStorage := (localStorage w)(''token'' \<mapsto> T', ''user'' \<mapsto> json_stringify I'),
         effects := effects w @ [DispatchEvent ''authChange'']\<rparr>)"
  proof (rule login_settle_stores)
    show "ok ?res" by (simp add: ok_def)
    show "json_parse (resp_text ?res) = Some ?data"
      using login_body_parses [OF wf] by simp
    show "get_member ?data ''token'' = Inr (Some (JStr T'))"
      by (simp add: get_member_def)
    show "get_member ?data ''user'' = Inr (Some I')"
      by (simp add: get_member_def)
  qed
  then have st: "snd (login_settle json_parse json_stringify (Inr ?res) w)
    = w\<lparr>localStorage := (localStorage w)(''token'' \<mapsto> T', ''user'' \<mapsto> json_stringify I'),
         effects := effects w @ [DispatchEvent ''authChange'']\<rparr>"
    by simp
  show "getToken (snd (login_settle json_parse json_stringify (Inr ?res) w)) = Some T'"
    unfolding st by (simp add: getToken_def getItem_def)
  show "getCurrentUser json_parse (snd (login_settle json_parse json_stringify (Inr ?res) w))
          = Inr I'"
    unfolding st by (simp add: getCurrentUser_def getItem_def rt stringify_nonempty)
qed

theorem login_round_trip_witness:
  "getToken (snd (login_settle json_parse json_stringify
      (Inr \<lparr>status = 200, resp_text = login_body\<rparr>) w_anonymous)) = Some ''tok-1''
   \<and> getCurrentUser json_parse (snd (login_settle json_parse json_stringify
      (Inr \<lparr>status = 200, resp_text = login_body\<rparr>) w_anonymous)) = Inr identity7
   \<and> getCurrentUser json_parse (snd (login_settle json_parse json_stringify
      (Inr \<lparr>status = 200,
            resp_text = json_stringify (JObj [(''token'', JStr ''tok-2''), (''user'', identity7)])\<rparr>)
      w_anonymous)) = Inr identity7"
proof -
  have a: "ok \<lparr>status = 200, resp_text = login_body\<rparr>"
    by (simp add: ok_def)
  have b: "json_parse (resp_text \<lparr>status = 200, resp_text = login_body\<rparr>) = Some login_data"
    by (simp add: json_parse_login_body)
  have c: "get_member login_data ''token'' = Inr (Some (JStr ''tok-1''))"
    by (simp add: get_member_def login_data_def)
  have d: "get_member login_data ''user'' = Inr (Some identity7)"
    by (simp add: get_member_def login_data_def)
  have e: "wf_json identity7"
    by (simp add: identity7_def js_order_def is_array_index_def is_digit_def)
  show ?thesis
    using a b c d e
      login_round_trip [where res = "\<lparr>status = 200, resp_text = login_body\<rparr>"
        and data = login_data and T = "''tok-1''" and I = identity7 and w = w_anonymous
        and I' = identity7 and T' = "''tok-2''"]
    by simp
qed

section \<open>Merging into the stored identity\<close>

lemma merged_identity_eq:
  "json_stringify (object_spread identity7 availability_update) = merged_identity"
  unfolding merged_identity_def identity7_def availability_update_def by code_simp


text \<open>
  Claim C9. If \<^verbatim>\<open>getCurrentUser\<close> returns a truthy value, \<^verbatim>\<open>updateStoredUser\<close> writes the
  serialization of \<^verbatim>\<open>{ ...currentUser, ...userData }\<close> under \<^verbatim>\<open>user\<close> and dispatches one
  \<^verbatim>\<open>authChange\<close> event, changing nothing else. For two objects that spread is the shallow
  merge: every key of either, with the value from \<open>userData\<close> where it has the key and
  the stored one otherwise. With no identity stored the call changes nothing and
  dispatches nothing. In every case, a throwing read included, the stored token is what
  it was.
\<close>

theorem updateStoredUser_merges:
  "(getCurrentUser parse w = Inr currentUser \<and> truthy currentUser \<longrightarrow>
      updateStoredUser parse stringify userData w
        = (Inr (),
           w\<lparr>localStorage := (localStorage w)
                 (''user'' \<mapsto> stringify (object_spread currentUser userData)),
             effects := effects w @ [DispatchEvent ''authChange'']\<rparr>))
   \<and> (distinct (map fst a) \<and> distinct (map fst b) \<longrightarrow>
        (\<exists>m. object_spread (JObj a) (JObj b) = JObj m \<and> distinct (map fst m)
             \<and> map_of m = map_of a ++ map_of b))
   \<and> (getItem ''user'' w = None \<longrightarrow>
        updateStoredUser parse stringify userData w = (Inr (), w))
   \<and> getItem ''token'' (snd (updateStoredUser parse stringify userData w)) = getItem ''token'' w"
proof (intro conjI impI)
  assume "getCurrentUser parse w = Inr currentUser \<and> truthy currentUser"
  then show "updateStoredUser parse stringify userData w
        = (Inr (),
           w\<lparr>localStorage := (localStorage w)
                 (''user'' \<mapsto> stringify (object_spread currentUser userData)),
             effects := effects w @ [DispatchEvent ''authChange'']\<rparr>)"
    by (simp add: updateStoredUser_def Let_def world_ops)
next
  assume "distinct (map fst a) \<and> distinct (map fst b)"
  then show "\<exists>m. object_spread (JObj a) (JObj b) = JObj m \<and> distinct (map fst m)
             \<and> map_of m = map_of a ++ map_of b"
    by (simp add: object_spread_objects)
next
  assume "getItem ''user'' w = None"
  then show "updateStoredUser parse stringify userData w = (Inr (), w)"
    by (simp add: updateStoredUser_def getCurrentUser_def)
next
  show "getItem ''token'' (snd (updateStoredUser parse stringify userData w)) = getItem ''token'' w"
    by (simp add: updateStoredUser_def Let_def world_ops split: sum.splits)
qed

theorem updateStoredUser_merges_witness:
  "updateStoredUser json_parse json_stringify availability_update w_logged_in
     = (Inr (), w_logged_in\<lparr>localStorage := [''token'' \<mapsto> ''tok-1'', ''user'' \<mapsto> merged_identity],
                  effects := [DispatchEvent ''authChange'']\<rparr>)
   \<and> (\<exists>m. object_spread identity7 availability_update = JObj m
         \<and> map_of m ''role'' = Some (JStr ''investigator'')
         \<and> map_of m ''is_available'' = Some (JBool False))
   \<and> updateStoredUser json_parse json_stringify availability_update w_token_only
       = (Inr (), w_token_only)"
proof -
  have a: "getCurrentUser json_parse w_logged_in = Inr identity7 \<and> truthy identity7"
    by (simp add: getCurrentUser_def w_logged_in_def getItem_def json_parse_stored_identity)
       (simp add: stored_identity_def identity7_def)
  have b: "distinct (map fst [(''id'', JNum 7), (''role'', JStr ''investigator''),
                (''is_available'', JBool True)])
      \<and> distinct (map fst [(''is_available'', JBool False), (''name'', JStr ''Ada'')])"
    by simp
  have c: "getItem ''user'' w_token_only = None"
    by (simp add: w_token_only_def getItem_def)
  have s: "(localStorage w_logged_in)(''user'' \<mapsto> merged_identity)
      = [''token'' \<mapsto> ''tok-1'', ''user'' \<mapsto> merged_identity]"
    by (auto simp: w_logged_in_def)
  have e: "effects w_logged_in = []"
    by (simp add: w_logged_in_def)
  from updateStoredUser_merges [where parse = json_parse and w = w_logged_in
      and currentUser = identity7 and stringify = json_stringify
      and userData = availability_update
      and a = "[(''id'', JNum 7), (''role'', JStr ''investigator''), (''is_available'', JBool True)]"
      and b = "[(''is_available'', JBool False), (''name'', JStr ''Ada'')]"] a b
  have m1: "updateStoredUser json_parse json_stringify availability_update w_logged_in
        = (Inr (),
           w_logged_in\<lparr>localStorage := (localStorage w_logged_in)
                 (''user'' \<mapsto> json_stringify (object_spread identity7 availability_update)),
             effects := effects w_logged_in @ [DispatchEvent ''authChange'']\<rparr>)"
    and m2: "\<exists>m. object_spread identity7 availability_update = JObj m \<and> distinct (map fst m)
             \<and> map_of m = map_of [(''id'', JNum 7), (''role'', JStr ''investigator''),
                                    (''is_available'', JBool True)]
                 ++ map_of [(''is_available'', JBool False), (''name'', JStr ''Ada'')]"
    by (simp_all add: identity7_def availability_update_def)
  from m2 have m2s: "\<exists>m. object_spread identity7 availability_update = JObj m
         \<and> map_of m ''role'' = Some (JStr ''investigator'')
         \<and> map_of m ''is_available'' = Some (JBool False)"
    by auto
  from updateStoredUser_merges [where parse = json_parse and w = w_token_only
      and stringify = json_stringify and userData = availability_update] c
  have m3: "updateStoredUser json_parse json_stringify availability_update w_token_only
       = (Inr (), w_token_only)"
    by simp
  from m1 m2s m3 show ?thesis
    by (simp add: merged_identity_eq s e)
qed

end
